theory Spec2Isabelle
  imports Complex_Main "HOL-Library.Word" "HOL-Library.Multiset"
begin

unbundle bit_operations_syntax

section \<open>Numbers and vectors\<close>

text \<open>
  The program computes with JavaScript numbers.  They are modelled as real numbers:
  rounding and NaN are outside the model, so every statement below is about the
  arithmetic the code writes down, not about its IEEE rounding.  The value
  \<open>Infinity\<close> occurs in the source only as the start of a running minimum (or
  \<open>-Infinity\<close> of a running maximum); such a variable is a \<open>real option\<close> whose
  \<open>None\<close> is the infinite start value.  The seeded generator works on 32-bit
  integers and is modelled on \<open>32 word\<close> exactly.
\<close>

type_synonym vec = "real \<times> real"

definition hypot :: "real \<Rightarrow> real \<Rightarrow> real" where
  "hypot a b = sqrt (a * a + b * b)"

definition dot :: "vec \<Rightarrow> vec \<Rightarrow> real" where
  "dot v axis = fst v * fst axis + snd v * snd axis"

section \<open>Polygon helpers\<close>

definition transformVerts :: "vec list \<Rightarrow> real \<Rightarrow> real \<Rightarrow> real \<Rightarrow> vec list" where
  "transformVerts localVerts posX posY rot =
     map (\<lambda>v. (fst v * cos rot - snd v * sin rot + posX,
                fst v * sin rot + snd v * cos rot + posY)) localVerts"

text \<open>
  \<open>projectOntoAxis\<close>: the loop starts from \<open>{min: Infinity, max: -Infinity}\<close>, which is
  \<open>None\<close>; after the first vertex both ends are that vertex's projection.
\<close>

fun projectOntoAxis_loop :: "(real \<times> real) option \<Rightarrow> vec list \<Rightarrow> vec \<Rightarrow> (real \<times> real) option" where
  "projectOntoAxis_loop acc [] axis = acc"
| "projectOntoAxis_loop acc (v # vs) axis =
     (let p = fst v * fst axis + snd v * snd axis
      in projectOntoAxis_loop
           (case acc of
              None \<Rightarrow> Some (p, p)
            | Some (mn, mx) \<Rightarrow> Some (if p < mn then p else mn, if p > mx then p else mx))
           vs axis)"

definition projectOntoAxis :: "vec list \<Rightarrow> vec \<Rightarrow> (real \<times> real) option" where
  "projectOntoAxis verts axis = projectOntoAxis_loop None verts axis"

text \<open>
  \<open>overlapIntervals\<close>: \<open>min(a.max, b.max) - max(a.min, b.min)\<close>.  With an empty
  projection on either side the source computes \<open>-Infinity\<close>, which is \<open>None\<close> here.
\<close>

definition overlapIntervals :: "(real \<times> real) option \<Rightarrow> (real \<times> real) option \<Rightarrow> real option" where
  "overlapIntervals a b =
     (case a of
        None \<Rightarrow> None
      | Some (amin, amax) \<Rightarrow>
          (case b of
             None \<Rightarrow> None
           | Some (bmin, bmax) \<Rightarrow> Some (min amax bmax - max amin bmin)))"

text \<open>
  The result of \<open>polygonPolygonSAT\<close>: \<open>null\<close>, or the object \<open>{normal, depth}\<close>.  When
  no axis was tested at all the source returns \<open>{normal: null, depth: Infinity}\<close>,
  which is \<open>SatUnbounded\<close>.
\<close>

datatype sat_result = SatNull | SatUnbounded | SatHit vec real

text \<open>
  \<open>checkAxes(verts1, verts2)\<close> walks the edges of \<open>verts1\<close>; the accumulator is the pair
  \<open>(minOverlap, bestAxis)\<close> of the enclosing function, \<open>None\<close> while it still is
  \<open>(Infinity, null)\<close>; \<open>updateBest\<close> is the assignment under \<open>if (o < minOverlap)\<close>.  The outer \<open>None\<close> is the return value \<open>false\<close>.  The projections
  are always those of \<open>vertsA\<close> and \<open>vertsB\<close> of the enclosing call.
\<close>

definition updateBest :: "(real \<times> vec) option \<Rightarrow> real \<Rightarrow> vec \<Rightarrow> (real \<times> vec) option" where
  "updateBest acc ov axis =
     (case acc of
        None \<Rightarrow> Some (ov, axis)
      | Some (minOverlap, bestAxis) \<Rightarrow> if ov < minOverlap then Some (ov, axis) else acc)"

fun checkAxes_loop ::
  "vec list \<Rightarrow> vec list \<Rightarrow> vec list \<Rightarrow> nat list \<Rightarrow> (real \<times> vec) option \<Rightarrow> (real \<times> vec) option option" where
  "checkAxes_loop vertsA vertsB verts1 [] acc = Some acc"
| "checkAxes_loop vertsA vertsB verts1 (i # rest) acc =
     (let j = (i + 1) mod length verts1;
          edge = (fst (verts1 ! j) - fst (verts1 ! i), snd (verts1 ! j) - snd (verts1 ! i));
          len = hypot (- snd edge) (fst edge)
      in if len = 0 then checkAxes_loop vertsA vertsB verts1 rest acc
         else
           (let axis = (- snd edge / len, fst edge / len)
            in case overlapIntervals (projectOntoAxis vertsA axis) (projectOntoAxis vertsB axis) of
                 None \<Rightarrow> None
               | Some ov \<Rightarrow>
                   if ov \<le> 0 then None
                   else checkAxes_loop vertsA vertsB verts1 rest (updateBest acc ov axis)))"

definition checkAxes ::
  "vec list \<Rightarrow> vec list \<Rightarrow> vec list \<Rightarrow> (real \<times> vec) option \<Rightarrow> (real \<times> vec) option option" where
  "checkAxes vertsA vertsB verts1 acc =
     checkAxes_loop vertsA vertsB verts1 [0 ..< length verts1] acc"

definition polygonPolygonSAT :: "vec list \<Rightarrow> vec list \<Rightarrow> sat_result" where
  "polygonPolygonSAT vertsA vertsB =
     (case checkAxes vertsA vertsB vertsA None of
        None \<Rightarrow> SatNull
      | Some acc1 \<Rightarrow>
          (case checkAxes vertsA vertsB vertsB acc1 of
             None \<Rightarrow> SatNull
           | Some None \<Rightarrow> SatUnbounded
           | Some (Some (minOverlap, bestAxis)) \<Rightarrow> SatHit bestAxis minOverlap))"

subsection \<open>The separating-axis test as the specification words it\<close>

text \<open>
  The edge normals of a polygon, normalised, the zero-length edges left out, in edge
  order; and the overlap of the two projection intervals on an axis, for polygons with
  at least one vertex.
\<close>

definition edgeNormal :: "vec list \<Rightarrow> nat \<Rightarrow> vec option" where
  "edgeNormal verts i =
     (let j = (i + 1) mod length verts;
          ex = fst (verts ! j) - fst (verts ! i);
          ey = snd (verts ! j) - snd (verts ! i);
          len = sqrt (ey * ey + ex * ex)
      in if len = 0 then None else Some (- ey / len, ex / len))"

definition edgeAxes :: "vec list \<Rightarrow> vec list" where
  "edgeAxes verts = List.map_filter (edgeNormal verts) [0 ..< length verts]"

definition axisOverlap :: "vec list \<Rightarrow> vec list \<Rightarrow> vec \<Rightarrow> real" where
  "axisOverlap vertsA vertsB axis =
     min (Max ((\<lambda>v. dot v axis) ` set vertsA)) (Max ((\<lambda>v. dot v axis) ` set vertsB))
     - max (Min ((\<lambda>v. dot v axis) ` set vertsA)) (Min ((\<lambda>v. dot v axis) ` set vertsB))"

text \<open>
  The accumulator of the axis walk after the axes \<open>axes\<close>: untouched while there was no
  axis, else the least overlap seen and an axis that has it.
\<close>

definition satAccOk :: "vec list \<Rightarrow> vec list \<Rightarrow> vec list \<Rightarrow> (real \<times> vec) option \<Rightarrow> bool" where
  "satAccOk vertsA vertsB axes acc =
     (case acc of
        None \<Rightarrow> axes = []
      | Some (d, n) \<Rightarrow>
          n \<in> set axes \<and> d = axisOverlap vertsA vertsB n \<and> 0 < d \<and>
          (\<forall>axis \<in> set axes. d \<le> axisOverlap vertsA vertsB axis))"

section \<open>Bodies and the world\<close>

text \<open>
  A body is the object that \<open>placeMesh\<close> hands to \<open>addBodyEntry\<close>, together with the
  fields written later (\<open>id\<close>, \<open>isMagnetAnchored\<close>, \<open>speedScale\<close>, \<open>isDragged\<close>).  Of the
  mesh only \<open>position.x\<close>, \<open>position.y\<close> and \<open>rotation.z\<close> are read by the core.  A field
  the source may leave \<open>undefined\<close> is an option: \<open>speedScale\<close> until \<open>createShapes\<close>
  sets it, \<open>colorIndex\<close> because \<open>transferColorOnCollision\<close> tests it; \<open>isDragged\<close>
  is only tested for truth, so \<open>undefined\<close> is \<open>False\<close>.
\<close>

datatype shape = Circle | Rect | Tri

record body =
  body_id :: nat
  posX :: real
  posY :: real
  rotZ :: real
  localVerts :: "vec list"
  boundingRadius :: real
  contactRadius :: real
  mass :: real
  invMass :: real
  velocity :: vec
  angularVelocity :: real
  shapeType :: shape
  colorIndex :: "nat option"
  isDragged :: bool
  speedScale :: "real option"
  isMagnetAnchored :: bool

text \<open>
  The module-level variables.  \<open>bodyById\<close> maps an id to the body registered under it,
  here to its index in \<open>bodies\<close>; \<open>sceneRef\<close> is only tested for presence.
\<close>

record world =
  bodies :: "body list"
  physicsEnabled :: bool
  nextBodyId :: nat
  bodyById :: "nat \<rightharpoonup> nat"
  colorTransferEnabled :: bool
  worldBoundsX :: real
  worldBoundsY :: real
  sceneRef :: bool

definition BASE_LINEAR_DAMPING :: real where "BASE_LINEAR_DAMPING = 998 / 1000"
definition BASE_ANGULAR_DAMPING :: real where "BASE_ANGULAR_DAMPING = 99 / 100"
definition FLUID_LINEAR_VISCOSITY :: real where "FLUID_LINEAR_VISCOSITY = 12 / 10"
definition FLUID_ANGULAR_VISCOSITY :: real where "FLUID_ANGULAR_VISCOSITY = 8 / 10"

definition getWorldVertices :: "body \<Rightarrow> vec list" where
  "getWorldVertices b = transformVerts (localVerts b) (posX b) (posY b) (rotZ b)"

definition setPhysicsEnabled :: "bool \<Rightarrow> world \<Rightarrow> world" where
  "setPhysicsEnabled enabled w = w\<lparr>physicsEnabled := enabled\<rparr>"

section \<open>The simulation step\<close>

text \<open>
  The first loop of \<open>updatePhysics\<close>, for one body: a dragged body only has its velocity
  scaled by 0.9; any other body is rotated and damped (by the factors \<open>angDrag\<close> and
  \<open>linearDrag\<close> of the source), moved, and put back inside the walls with the velocity
  component inverted.
\<close>

definition angDrag :: "real \<Rightarrow> real" where
  "angDrag dt = BASE_ANGULAR_DAMPING * exp (- FLUID_ANGULAR_VISCOSITY * dt)"

definition linearDrag :: "real \<Rightarrow> real" where
  "linearDrag dt = BASE_LINEAR_DAMPING * exp (- FLUID_LINEAR_VISCOSITY * dt)"

definition moveBody :: "real \<Rightarrow> real \<Rightarrow> real \<Rightarrow> body \<Rightarrow> body" where
  "moveBody dt bndX bndY b =
     (if isDragged b then b\<lparr>velocity := (fst (velocity b) * (9 / 10), snd (velocity b) * (9 / 10))\<rparr>
      else
        (let b1 = (if angularVelocity b \<noteq> 0
                   then b\<lparr>rotZ := rotZ b + angularVelocity b * dt * 1,
                          angularVelocity := angularVelocity b * angDrag dt\<rparr>
                   else b);
             vx = fst (velocity b1) * linearDrag dt;
             vy = snd (velocity b1) * linearDrag dt;
             px = posX b1 + vx * dt * 1;
             py = posY b1 + vy * dt * 1;
             r = boundingRadius b1;
             xs = (if px - r < - bndX then (- bndX + r, vx * (- 1))
                   else if px + r > bndX then (bndX - r, vx * (- 1))
                   else (px, vx));
             ys = (if py - r < - bndY then (- bndY + r, vy * (- 1))
                   else if py + r > bndY then (bndY - r, vy * (- 1))
                   else (py, vy))
         in b1\<lparr>posX := fst xs, posY := fst ys, velocity := (snd xs, snd ys)\<rparr>))"

text \<open>
  \<open>transferColorOnCollision\<close>: the two preset indices change places, unless one of them
  is \<open>undefined\<close>.  (Repainting the meshes is the renderer's business.)
\<close>

definition transferColorOnCollision :: "body \<Rightarrow> body \<Rightarrow> body \<times> body" where
  "transferColorOnCollision a b =
     (if colorIndex a = None \<or> colorIndex b = None then (a, b)
      else (a\<lparr>colorIndex := colorIndex b\<rparr>, b\<lparr>colorIndex := colorIndex a\<rparr>))"

text \<open>The collision normal, turned so that it points from \<open>a\<close> to \<open>b\<close>.\<close>

definition orientNormal :: "body \<Rightarrow> body \<Rightarrow> vec \<Rightarrow> vec" where
  "orientNormal a b normal =
     (let centerDirX = posX b - posX a;
          centerDirY = posY b - posY a
      in if centerDirX * fst normal + centerDirY * snd normal < 0
         then (fst normal * (- 1), snd normal * (- 1)) else normal)"

text \<open>\<open>velAlongNormal\<close>: the velocity of \<open>b\<close> relative to \<open>a\<close>, along the normal.\<close>

definition velAlongNormal :: "body \<Rightarrow> body \<Rightarrow> vec \<Rightarrow> real" where
  "velAlongNormal a b normal =
     (fst (velocity b) - fst (velocity a)) * fst normal +
     (snd (velocity b) - snd (velocity a)) * snd normal"

text \<open>The spin added at a hit, with the clamp to \<open>maxAngVel = 4.0\<close>.\<close>

definition addSpin :: "real \<Rightarrow> body \<Rightarrow> body" where
  "addSpin delta a =
     (if shapeType a = Rect \<or> shapeType a = Tri \<or> shapeType a = Circle
      then (let w1 = angularVelocity a + delta;
                w2 = (if w1 > 4 then 4 else w1);
                w3 = (if w2 < - 4 then - 4 else w2)
            in a\<lparr>angularVelocity := w3\<rparr>)
      else a)"

text \<open>\<open>a.speedScale || 1\<close>\<close>

definition speedScaleOr1 :: "body \<Rightarrow> real" where
  "speedScaleOr1 a = (case speedScale a of None \<Rightarrow> 1 | Some s \<Rightarrow> if s = 0 then 1 else s)"

text \<open>\<open>a.isDragged ? 0 : a.invMass\<close>\<close>

definition effInvMass :: "body \<Rightarrow> real" where
  "effInvMass a = (if isDragged a then 0 else invMass a)"

text \<open>
  The body of the pair loop for the pair \<open>(a, b)\<close>.  \<open>None\<close> is the \<open>TypeError\<close> thrown
  when the test returns \<open>{normal: null, depth: Infinity}\<close> and \<open>normal.x\<close> is read.
\<close>

definition resolvePair :: "bool \<Rightarrow> body \<Rightarrow> body \<Rightarrow> (body \<times> body) option" where
  "resolvePair colorTransfer a b =
     (case polygonPolygonSAT (getWorldVertices a) (getWorldVertices b) of
        SatNull \<Rightarrow> Some (a, b)
      | SatUnbounded \<Rightarrow> None
      | SatHit normal0 depth \<Rightarrow>
          (let normal = orientNormal a b normal0;
               invMassA = effInvMass a;
               invMassB = effInvMass b;
               invMassSum = invMassA + invMassB
           in if invMassSum = 0 then Some (a, b)
              else
                (let correctionA = depth * (invMassA / invMassSum);
                     correctionB = depth * (invMassB / invMassSum);
                     a1 = a\<lparr>posX := posX a - fst normal * correctionA,
                            posY := posY a - snd normal * correctionA\<rparr>;
                     b1 = b\<lparr>posX := posX b + fst normal * correctionB,
                            posY := posY b + snd normal * correctionB\<rparr>;
                     rvx = fst (velocity b1) - fst (velocity a1);
                     rvy = snd (velocity b1) - snd (velocity a1);
                     van = rvx * fst normal + rvy * snd normal
                 in if van < 0
                    then
                      (let restitution = 1;
                           invMassA2 = effInvMass a1;
                           invMassB2 = effInvMass b1;
                           invMassSum2 = invMassA2 + invMassB2
                       in if invMassSum2 = 0 then Some (a1, b1)
                          else
                            (let jImpulse = - (1 + restitution) * van / invMassSum2;
                                 impulseX = jImpulse * fst normal;
                                 impulseY = jImpulse * snd normal;
                                 a2 = a1\<lparr>velocity := (fst (velocity a1) - impulseX * invMassA2,
                                                      snd (velocity a1) - impulseY * invMassA2)\<rparr>;
                                 b2 = b1\<lparr>velocity := (fst (velocity b1) + impulseX * invMassB2,
                                                      snd (velocity b1) + impulseY * invMassB2)\<rparr>;
                                 velTangent = rvx * (- snd normal) + rvy * fst normal;
                                 baseSpinFactor = 18 / 100;
                                 spinFactorA = baseSpinFactor * speedScaleOr1 a2;
                                 spinFactorB = baseSpinFactor * speedScaleOr1 b2;
                                 a3 = addSpin (- (velTangent * spinFactorA)) a2;
                                 b3 = addSpin (velTangent * spinFactorB) b2
                             in if colorTransfer then Some (transferColorOnCollision a3 b3)
                                else Some (a3, b3)))
                    else Some (a1, b1))))"

text \<open>The index pairs \<open>i < j < n\<close> in the order of the two nested loops.\<close>

definition allPairs :: "nat \<Rightarrow> (nat \<times> nat) list" where
  "allPairs n = concat (map (\<lambda>i. map (\<lambda>j. (i, j)) [i + 1 ..< n]) [0 ..< n])"

fun pairLoop :: "bool \<Rightarrow> (nat \<times> nat) list \<Rightarrow> body list \<Rightarrow> body list option" where
  "pairLoop colorTransfer [] bs = Some bs"
| "pairLoop colorTransfer ((i, j) # rest) bs =
     (case resolvePair colorTransfer (bs ! i) (bs ! j) of
        None \<Rightarrow> None
      | Some (a', b') \<Rightarrow> pairLoop colorTransfer rest (bs[i := a', j := b']))"

text \<open>The last loop: is anything still dragged or moving?\<close>

fun anyMoving :: "body list \<Rightarrow> bool" where
  "anyMoving [] = False"
| "anyMoving (b # bs) =
     (if isDragged b then True
      else if hypot (fst (velocity b)) (snd (velocity b)) > 2 / 100 \<or> \<bar>angularVelocity b\<bar> > 4 / 10
           then True
           else anyMoving bs)"

definition updatePhysics :: "real \<Rightarrow> world \<Rightarrow> world option" where
  "updatePhysics dt w =
     (if \<not> physicsEnabled w then Some w
      else
        (let moved = map (moveBody dt (worldBoundsX w) (worldBoundsY w)) (bodies w)
         in case pairLoop (colorTransferEnabled w) (allPairs (length moved)) moved of
              None \<Rightarrow> None
            | Some bs \<Rightarrow>
                (let w1 = w\<lparr>bodies := bs\<rparr>
                 in if \<not> anyMoving bs then Some (setPhysicsEnabled False w1) else Some w1)))"

text \<open>An accumulator that holds a positive overlap and an axis of length 1, if any.\<close>

definition satAccUnit :: "(real \<times> vec) option \<Rightarrow> bool" where
  "satAccUnit acc = (case acc of None \<Rightarrow> True | Some (d, n) \<Rightarrow> 0 < d \<and> hypot (fst n) (snd n) = 1)"

section \<open>The body registry\<close>

text \<open>
  The object literal that \<open>placeMesh\<close> passes to \<open>addBodyEntry\<close>, after
  \<open>mesh.position.set(x, y, 0)\<close>.  The fields the literal does not have are at the value
  the core reads for \<open>undefined\<close>; \<open>body_id\<close> is written by \<open>registerBody\<close> before anything
  reads it.  \<open>1 / mass\<close> is \<open>Infinity\<close> in the source when the bounding radius is 0 and 0
  here; no shape of \<open>createShapes\<close> has radius 0.
\<close>

definition bodyLiteral ::
  "real \<Rightarrow> real \<Rightarrow> real \<Rightarrow> vec list \<Rightarrow> real \<Rightarrow> real \<Rightarrow> shape \<Rightarrow> nat \<Rightarrow> body" where
  "bodyLiteral x y rot verts bRadius cRadius sType cIndex =
     \<lparr>body_id = 0, posX = x, posY = y, rotZ = rot, localVerts = verts,
      boundingRadius = bRadius, contactRadius = cRadius,
      mass = bRadius * bRadius, invMass = 1 / (bRadius * bRadius),
      velocity = (0, 0), angularVelocity = 0, shapeType = sType,
      colorIndex = Some cIndex, isDragged = False, speedScale = None,
      isMagnetAnchored = False\<rparr>"

text \<open>
  \<open>registerBody\<close> hands out \<open>nextBodyId++\<close> and enters the body in \<open>bodyById\<close>; the body it
  registers is the one \<open>addBodyEntry\<close> pushes next, so the map entry is the index the body
  gets in \<open>bodies\<close>.
\<close>

definition registerBody :: "body \<Rightarrow> world \<Rightarrow> body \<times> world" where
  "registerBody b w =
     (b\<lparr>body_id := nextBodyId w\<rparr>,
      w\<lparr>nextBodyId := nextBodyId w + 1,
        bodyById := (bodyById w)(nextBodyId w \<mapsto> length (bodies w))\<rparr>)"

definition addBodyEntry :: "body \<Rightarrow> world \<Rightarrow> world" where
  "addBodyEntry b w =
     (case registerBody b w of
        (b1, w1) \<Rightarrow> w1\<lparr>bodies := bodies w1 @ [b1\<lparr>isMagnetAnchored := False\<rparr>]\<rparr>)"

section \<open>Example states\<close>

text \<open>
  A 0.6 by 0.8 rectangle (bounding radius 0.5) as \<open>addRect\<close> lists its corners, and the
  state of the module before the first composition, with the initial world bounds.
\<close>

definition exampleRectVerts :: "vec list" where
  "exampleRectVerts = [(- (3 / 10), - (4 / 10)), (3 / 10, - (4 / 10)), (3 / 10, 4 / 10), (- (3 / 10), 4 / 10)]"

definition exampleRect :: "real \<Rightarrow> real \<Rightarrow> nat \<Rightarrow> body" where
  "exampleRect x y cIndex = bodyLiteral x y 0 exampleRectVerts (1 / 2) (21 / 100) Rect cIndex"

definition initialWorld :: world where
  "initialWorld =
     \<lparr>bodies = [], physicsEnabled = False, nextBodyId = 1, bodyById = Map.empty,
      colorTransferEnabled = False, worldBoundsX = 4, worldBoundsY = 22 / 10, sceneRef = False\<rparr>"

text \<open>A running world that holds the given bodies, registered in order.\<close>

definition exampleWorld :: "body list \<Rightarrow> world" where
  "exampleWorld bs = setPhysicsEnabled True (fold addBodyEntry bs initialWorld)"

section \<open>Predicates used in the statements about the step\<close>

text \<open>
  What the pair loop leaves alone: the drag flag and the local vertices of every body,
  and position and velocity of a dragged body.
\<close>

definition pairFrame :: "body \<Rightarrow> body \<Rightarrow> bool" where
  "pairFrame a a' \<longleftrightarrow>
     isDragged a' = isDragged a \<and> localVerts a' = localVerts a \<and>
     (isDragged a \<longrightarrow> posX a' = posX a \<and> posY a' = posY a \<and> velocity a' = velocity a)"

text \<open>
  The pair step swaps colours for \<open>a\<close> and \<open>b\<close>: the test reports a hit, some inverse mass
  counts, and the relative velocity along the normal is negative.
\<close>

definition approachingHit :: "body \<Rightarrow> body \<Rightarrow> bool" where
  "approachingHit a b =
     (case polygonPolygonSAT (getWorldVertices a) (getWorldVertices b) of
        SatHit normal0 depth \<Rightarrow>
          effInvMass a + effInvMass b \<noteq> 0 \<and> velAlongNormal a b (orientNormal a b normal0) < 0
      | _ \<Rightarrow> False)"

text \<open>
  A 0.06 by 0.08 rectangle (bounding radius 0.05), and a state of two bodies at rest or
  nearly so: the large rectangle touches the right wall and drifts towards it at 0.019,
  the small one lies still and reaches 0.001 into the large one from the left.  Both
  carry the \<open>speedScale\<close> that \<open>createShapes\<close> gives to bodies of their size.
\<close>

definition exampleSmallRectVerts :: "vec list" where
  "exampleSmallRectVerts =
     [(- (3 / 100), - (4 / 100)), (3 / 100, - (4 / 100)), (3 / 100, 4 / 100), (- (3 / 100), 4 / 100)]"

definition exampleSmallRect :: "real \<Rightarrow> real \<Rightarrow> nat \<Rightarrow> body" where
  "exampleSmallRect x y cIndex =
     bodyLiteral x y 0 exampleSmallRectVerts (5 / 100) (21 / 1000) Rect cIndex"

definition slowBig :: body where
  "slowBig = (exampleRect (7 / 2) 0 2)\<lparr>velocity := (19 / 1000, 0), speedScale := Some (18 / 11)\<rparr>"

definition stillSmall :: body where
  "stillSmall = (exampleSmallRect (3171 / 1000) 0 7)\<lparr>speedScale := Some 2\<rparr>"

definition slowWorld :: world where
  "slowWorld = exampleWorld [slowBig, stillSmall]"

text \<open>The hypothesis of the auto-pause claim: no body dragged, every speed below its epsilon.\<close>

definition allAtRest :: "body list \<Rightarrow> bool" where
  "allAtRest bs \<longleftrightarrow>
     (\<forall>b \<in> set bs. \<not> isDragged b \<and>
        hypot (fst (velocity b)) (snd (velocity b)) < 2 / 100 \<and> \<bar>angularVelocity b\<bar> < 4 / 10)"

definition pairColours :: "body \<times> body \<Rightarrow> nat option \<times> nat option" where
  "pairColours p = (colorIndex (fst p), colorIndex (snd p))"

text \<open>
  A running state in which the small rectangle lies still at the origin, far from the
  large one at the wall.
\<close>

definition apartWorld :: world where
  "apartWorld = exampleWorld [slowBig, (exampleSmallRect 0 0 7)\<lparr>speedScale := Some 2\<rparr>]"

section \<open>The placement engine\<close>

text \<open>
  A candidate as \<open>evaluateCandidate\<close> returns it.  The score is \<open>Infinity\<close> (\<open>None\<close>) when
  there is no body to measure against; \<open>belowInf\<close> and \<open>lessInf\<close> are \<open><\<close> against a
  variable that starts at \<open>Infinity\<close>.
\<close>

record candidate =
  cand_x :: real
  cand_y :: real
  contacts :: nat
  score :: "real option"

definition belowInf :: "real \<Rightarrow> real option \<Rightarrow> bool" where
  "belowInf d m = (case m of None \<Rightarrow> True | Some v \<Rightarrow> d < v)"

definition lessInf :: "real option \<Rightarrow> real option \<Rightarrow> bool" where
  "lessInf s m = (case s of None \<Rightarrow> False | Some d \<Rightarrow> belowInf d m)"

text \<open>The bounds check of \<open>evaluateCandidate\<close> for one vertex.\<close>

definition outOfBounds :: "real \<Rightarrow> real \<Rightarrow> real \<Rightarrow> vec \<Rightarrow> bool" where
  "outOfBounds bndX bndY margin v \<longleftrightarrow>
     fst v < - bndX + margin \<or> fst v > bndX - margin \<or>
     snd v < - bndY + margin \<or> snd v > bndY - margin"

text \<open>
  The intersection test of \<open>evaluateCandidate\<close> against one body: \<open>True\<close> where the source
  returns \<open>null\<close>.  Two circles are compared by the distance of their centres, with 3%
  of the ideal distance allowed; any other pair by the separating-axis test, with a depth
  of 0.002 allowed.  The result \<open>{normal: null, depth: Infinity}\<close> is an object with a depth
  above 0.002.
\<close>

definition illegalOverlap :: "shape \<Rightarrow> real \<Rightarrow> vec list \<Rightarrow> real \<Rightarrow> real \<Rightarrow> body \<Rightarrow> bool" where
  "illegalOverlap sType cRadius candidateVerts x y b =
     (if sType = Circle \<and> shapeType b = Circle
      then (let dx = posX b - x;
                dy = posY b - y;
                d = hypot dx dy;
                ideal = contactRadius b + cRadius;
                eps = ideal * (3 / 100)
            in d < ideal - eps)
      else (case polygonPolygonSAT (getWorldVertices b) candidateVerts of
              SatNull \<Rightarrow> False
            | SatUnbounded \<Rightarrow> True
            | SatHit normal depth \<Rightarrow> depth > 2 / 1000))"

text \<open>
  The second loop of \<open>evaluateCandidate\<close>: the accumulator is
  \<open>(contacts, minCenterDist, minGap)\<close>.
\<close>

fun contactLoop ::
  "real \<Rightarrow> real \<Rightarrow> real \<Rightarrow> body list \<Rightarrow> nat \<times> real option \<times> real option \<Rightarrow>
   nat \<times> real option \<times> real option" where
  "contactLoop cRadius x y [] acc = acc"
| "contactLoop cRadius x y (b # bs) (cnt, minCenterDist, minGap) =
     (let dx = posX b - x;
          dy = posY b - y;
          d = hypot dx dy;
          minCenterDist1 = (if belowInf d minCenterDist then Some d else minCenterDist);
          idealContact = contactRadius b + cRadius;
          gapAbs = \<bar>d - idealContact\<bar>;
          cnt1 = (if gapAbs \<le> idealContact * (3 / 100) then cnt + 1 else cnt);
          minGap1 = (if belowInf gapAbs minGap then Some gapAbs else minGap)
      in contactLoop cRadius x y bs (cnt1, minCenterDist1, minGap1))"

definition evaluateCandidate ::
  "real \<Rightarrow> real \<Rightarrow> body list \<Rightarrow> vec list \<Rightarrow> real \<Rightarrow> shape \<Rightarrow> real \<Rightarrow> real \<Rightarrow> real \<Rightarrow>
   candidate option" where
  "evaluateCandidate bndX bndY bs verts rot sType cRadius x y =
     (let candidateVerts = transformVerts verts x y rot
      in if \<exists>v \<in> set candidateVerts. outOfBounds bndX bndY (1 / 1000) v then None
         else if \<exists>b \<in> set bs. illegalOverlap sType cRadius candidateVerts x y b then None
         else
           (case contactLoop cRadius x y bs (0, None, None) of
              (cnt, minCenterDist, minGap) \<Rightarrow>
                Some \<lparr>cand_x = x, cand_y = y, contacts = cnt,
                      score = (case minGap of
                                 None \<Rightarrow> None
                               | Some g \<Rightarrow>
                                   (case minCenterDist of
                                      None \<Rightarrow> None
                                    | Some c \<Rightarrow> Some (\<bar>g - 3 / 10000\<bar> + c * (2 / 100))))\<rparr>))"

text \<open>
  The two points at distance \<open>RA\<close> from \<open>(ax, ay)\<close> and \<open>RB\<close> from \<open>(bx, by)\<close>, in the order
  in which both uses in \<open>placeMesh\<close> list them; \<open>None\<close> when \<open>h2 < 0\<close>.  The callers have
  excluded \<open>d = 0\<close>.
\<close>

definition tangentPoints :: "real \<Rightarrow> real \<Rightarrow> real \<Rightarrow> real \<Rightarrow> real \<Rightarrow> real \<Rightarrow> (vec \<times> vec) option" where
  "tangentPoints ax ay bx bY RA RB =
     (let dx = bx - ax;
          dy = bY - ay;
          d = hypot dx dy;
          ex = dx / d;
          ey = dy / d;
          aLen = (RA * RA - RB * RB + d * d) / (2 * d);
          h2 = RA * RA - aLen * aLen
      in if h2 < 0 then None
         else (let h = sqrt h2;
                   x0 = ax + ex * aLen;
                   y0 = ay + ey * aLen
               in Some ((x0 - ey * h, y0 + ex * h), (x0 + ey * h, y0 - ex * h))))"

text \<open>
  The special case of the third circle: the first of the two tangent points that lies
  inside the bounds (by the contact radius, with margin 0.001) and is within 4% of both
  ideal distances.
\<close>

definition thirdCircleOk :: "real \<Rightarrow> real \<Rightarrow> body \<Rightarrow> body \<Rightarrow> real \<Rightarrow> vec \<Rightarrow> bool" where
  "thirdCircleOk bndX bndY a b r3 c \<longleftrightarrow>
     \<not> (fst c - r3 < - bndX + 1 / 1000 \<or> fst c + r3 > bndX - 1 / 1000 \<or>
        snd c - r3 < - bndY + 1 / 1000 \<or> snd c + r3 > bndY - 1 / 1000) \<and>
     \<not> (\<bar>hypot (fst c - posX a) (snd c - posY a) - (contactRadius a + r3)\<bar>
           > (contactRadius a + r3) * (4 / 100) \<or>
        \<bar>hypot (fst c - posX b) (snd c - posY b) - (contactRadius b + r3)\<bar>
           > (contactRadius b + r3) * (4 / 100))"

definition thirdCircle :: "real \<Rightarrow> real \<Rightarrow> body \<Rightarrow> body \<Rightarrow> real \<Rightarrow> vec option" where
  "thirdCircle bndX bndY a b r3 =
     (let d = hypot (posX b - posX a) (posY b - posY a);
          RA = contactRadius a + r3;
          RB = contactRadius b + r3
      in if d > 1 / 1000000 \<and> d \<le> RA + RB \<and> d \<ge> \<bar>RA - RB\<bar>
         then (case tangentPoints (posX a) (posY a) (posX b) (posY b) RA RB of
                 None \<Rightarrow> None
               | Some (c1, c2) \<Rightarrow>
                   if thirdCircleOk bndX bndY a b r3 c1 then Some c1
                   else if thirdCircleOk bndX bndY a b r3 c2 then Some c2
                   else None)
         else None)"

text \<open>
  The three tiers of candidates.  \<open>ev\<close> is \<open>evaluateCandidate\<close> with everything but the
  point fixed.
\<close>

definition optList :: "'a option \<Rightarrow> 'a list" where
  "optList p = (case p of None \<Rightarrow> [] | Some c \<Rightarrow> [c])"

definition pairCandidates :: "(real \<Rightarrow> real \<Rightarrow> candidate option) \<Rightarrow> real \<Rightarrow> body \<Rightarrow> body \<Rightarrow> candidate list" where
  "pairCandidates ev cRadius a b =
     (let d = hypot (posX b - posX a) (posY b - posY a)
      in if d = 0 then []
         else (let RA = contactRadius a + cRadius;
                   RB = contactRadius b + cRadius
               in if d > RA + RB \<or> d < \<bar>RA - RB\<bar> then []
                  else (case tangentPoints (posX a) (posY a) (posX b) (posY b) RA RB of
                          None \<Rightarrow> []
                        | Some (p1, p2) \<Rightarrow>
                            optList (ev (fst p1) (snd p1)) @ optList (ev (fst p2) (snd p2)))))"

definition twoTangentCandidates :: "(real \<Rightarrow> real \<Rightarrow> candidate option) \<Rightarrow> real \<Rightarrow> body list \<Rightarrow> candidate list" where
  "twoTangentCandidates ev cRadius bs =
     (if length bs \<ge> 2
      then concat (map (\<lambda>p. pairCandidates ev cRadius (bs ! fst p) (bs ! snd p)) (allPairs (length bs)))
      else [])"

definition oneTangentCandidates :: "(real \<Rightarrow> real \<Rightarrow> candidate option) \<Rightarrow> real \<Rightarrow> body list \<Rightarrow> candidate list" where
  "oneTangentCandidates ev cRadius bs =
     concat (map (\<lambda>b. List.map_filter
                        (\<lambda>k. ev (posX b + cos (2 * pi * real k / 96) * (contactRadius b + cRadius))
                                 (posY b + sin (2 * pi * real k / 96) * (contactRadius b + cRadius)))
                        [0 ..< 96]) bs)"

text \<open>
  The values a loop \<open>for (v = lo; v <= hi; v += step)\<close> runs through, for a positive step.
\<close>

function gridRange :: "real \<Rightarrow> real \<Rightarrow> real \<Rightarrow> real list" where
  "gridRange v hi step = (if 0 < step \<and> v \<le> hi then v # gridRange (v + step) hi step else [])"
  by pat_completeness auto
termination
proof (relation "measure (\<lambda>(v, hi, step). nat (\<lfloor>(hi - v) / step\<rfloor> + 1))")
  show "wf (measure (\<lambda>(v, hi, step). nat (\<lfloor>(hi - v) / step\<rfloor> + 1)))" by simp
next
  fix v hi step :: real
  assume a: "0 < step \<and> v \<le> hi"
  then have "(hi - (v + step)) / step = (hi - v) / step - 1"
    by (simp add: field_simps)
  then have "\<lfloor>(hi - (v + step)) / step\<rfloor> = \<lfloor>(hi - v) / step\<rfloor> - 1"
    by simp
  moreover from a have "0 \<le> \<lfloor>(hi - v) / step\<rfloor>"
    by simp
  ultimately show "((v + step, hi, step), (v, hi, step)) \<in>
      measure (\<lambda>(v, hi, step). nat (\<lfloor>(hi - v) / step\<rfloor> + 1))"
    by simp
qed

declare gridRange.simps [simp del]

text \<open>
  The grid tier.  With a step that is not positive the two loops never end as soon as the
  outer one is entered; that is \<open>None\<close>.
\<close>

definition gridCandidates ::
  "(real \<Rightarrow> real \<Rightarrow> candidate option) \<Rightarrow> real \<Rightarrow> real \<Rightarrow> real \<Rightarrow> candidate list option" where
  "gridCandidates ev cRadius bndX bndY =
     (let step = cRadius * (6 / 10)
      in if 0 < step
         then Some (concat (map (\<lambda>y. List.map_filter (\<lambda>x. ev x y)
                                        (gridRange (- bndX + cRadius) (bndX - cRadius) step))
                                (gridRange (- bndY + cRadius) (bndY - cRadius) step)))
         else if - bndY + cRadius \<le> bndY - cRadius then None
         else Some [])"

text \<open>The selection loops: the running best candidate and \<open>bestScore\<close>.\<close>

fun maxContactsLoop :: "candidate list \<Rightarrow> nat \<Rightarrow> nat" where
  "maxContactsLoop [] m = m"
| "maxContactsLoop (c # cs) m = maxContactsLoop cs (if contacts c > m then contacts c else m)"

fun bestLoop :: "nat \<Rightarrow> candidate list \<Rightarrow> candidate option \<times> real option \<Rightarrow> candidate option \<times> real option" where
  "bestLoop required [] acc = acc"
| "bestLoop required (c # cs) (best, bestScore) =
     (if contacts c < required then bestLoop required cs (best, bestScore)
      else if lessInf (score c) bestScore then bestLoop required cs (Some c, score c)
      else bestLoop required cs (best, bestScore))"

definition chooseBest :: "nat \<Rightarrow> candidate list \<Rightarrow> candidate option" where
  "chooseBest nBodies cands =
     (let maxContacts = maxContactsLoop cands 0;
          requiredContacts = (if nBodies \<ge> 2 \<and> maxContacts \<ge> 2 then 2 else 1)
      in case bestLoop requiredContacts cands (None, None) of
           (Some c, bestScore) \<Rightarrow> Some c
         | (None, bestScore) \<Rightarrow> fst (bestLoop 0 cands (None, bestScore)))"

text \<open>
  \<open>placeMesh\<close>.  \<open>rot\<close> is \<open>mesh.rotation.z\<close> as the caller has set it; every caller
  passes a contact radius, so the default for a missing one is not modelled.
  \<open>Hangs\<close>: the call does not return; \<open>Failed\<close>: it returns \<open>false\<close>; \<open>Placed\<close>: it
  returns \<open>true\<close> and has added the body.
\<close>

datatype placed = Hangs | Failed | Placed world

definition generalPlace ::
  "real \<Rightarrow> real \<Rightarrow> vec list \<Rightarrow> shape \<Rightarrow> real \<Rightarrow> nat \<Rightarrow> world \<Rightarrow> placed" where
  "generalPlace rot bRadius verts sType cRadius cIndex w =
     (let ev = evaluateCandidate (worldBoundsX w) (worldBoundsY w) (bodies w) verts rot sType cRadius;
          tier1 = twoTangentCandidates ev cRadius (bodies w);
          tier2 = (if tier1 = [] then oneTangentCandidates ev cRadius (bodies w) else tier1)
      in case (if tier2 = [] then gridCandidates ev cRadius (worldBoundsX w) (worldBoundsY w)
               else Some tier2) of
           None \<Rightarrow> Hangs
         | Some cands \<Rightarrow>
             if cands = [] then Failed
             else (case chooseBest (length (bodies w)) cands of
                     None \<Rightarrow> Failed
                   | Some c \<Rightarrow>
                       Placed (addBodyEntry
                                (bodyLiteral (cand_x c) (cand_y c) rot verts bRadius cRadius sType cIndex) w)))"

definition placeMesh ::
  "real \<Rightarrow> real \<Rightarrow> vec list \<Rightarrow> shape \<Rightarrow> real \<Rightarrow> nat \<Rightarrow> world \<Rightarrow> placed" where
  "placeMesh rot bRadius verts sType cRadius cIndex w =
     (if length (bodies w) = 0
      then (if 0 - bRadius < - worldBoundsX w \<or> 0 + bRadius > worldBoundsX w \<or>
               0 - bRadius < - worldBoundsY w \<or> 0 + bRadius > worldBoundsY w
            then Failed
            else Placed (addBodyEntry (bodyLiteral 0 0 rot verts bRadius cRadius sType cIndex) w))
      else
        (case (if sType = Circle \<and> length (bodies w) = 2 \<and>
                  shapeType (bodies w ! 0) = Circle \<and> shapeType (bodies w ! 1) = Circle
               then thirdCircle (worldBoundsX w) (worldBoundsY w) (bodies w ! 0) (bodies w ! 1) cRadius
               else None) of
           Some c \<Rightarrow>
             Placed (addBodyEntry (bodyLiteral (fst c) (snd c) rot verts bRadius cRadius sType cIndex) w)
         | None \<Rightarrow> generalPlace rot bRadius verts sType cRadius cIndex w))"

section \<open>The seeded generator\<close>

text \<open>
  \<open>createRng\<close>: a seed string is its sequence of UTF-16 code units (\<open>charCodeAt\<close>).  The
  hash and the generator compute with \<open>Math.imul\<close>, shifts and \<open>| 0\<close> on 32-bit integers,
  which is arithmetic on \<open>32 word\<close>.  The generator's state is the captured variable
  \<open>h\<close>; a call returns the number and the new state.  \<open>temper\<close> is the part of
  \<open>mulberry32\<close> that computes \<open>t\<close> from the advanced state; the result is read unsigned
  (\<open>>>> 0\<close>) and divided by \<open>2^32\<close>.
\<close>

type_synonym seed = "16 word list"

fun seedLoop :: "32 word \<Rightarrow> seed \<Rightarrow> 32 word" where
  "seedLoop h [] = h"
| "seedLoop h (c # cs) =
     (let h1 = (h XOR ucast c) * 3432918353
      in seedLoop (push_bit 13 h1 OR drop_bit 19 h1) cs)"

definition createRng :: "seed \<Rightarrow> 32 word" where
  "createRng seedStr = seedLoop (1779033703 XOR of_nat (length seedStr)) seedStr"

definition temper :: "32 word \<Rightarrow> 32 word" where
  "temper h =
     (let t = (h XOR drop_bit 15 h) * (1 OR h);
          t1 = (t + (t XOR drop_bit 7 t) * (61 OR t)) XOR t
      in t1 XOR drop_bit 14 t1)"

definition mulberry32 :: "32 word \<Rightarrow> real \<times> 32 word" where
  "mulberry32 h0 =
     (let h = h0 + 1831565813
      in (real (unat (temper h)) / 4294967296, h))"

section \<open>Building a composition\<close>

text \<open>
  The kinds of the ten entries of \<open>COLOR_PRESETS\<close>.  The colours themselves belong to
  the renderer; the kind decides whether a material draws random numbers.
\<close>

datatype presetKind = Solid | Gradient

definition COLOR_PRESETS :: "presetKind list" where
  "COLOR_PRESETS = [Solid, Gradient, Gradient, Solid, Gradient, Solid, Gradient, Gradient,
                    Gradient, Gradient]"

text \<open>
  What \<open>createShapes\<close> threads through its helpers: the generator's state, the preset
  indices not yet taken, and the world.
\<close>

record composer =
  rngState :: "32 word"
  availablePresetIndices :: "nat list"
  theWorld :: world

text \<open>\<open>rng()\<close>\<close>

definition rngNext :: "composer \<Rightarrow> real \<times> composer" where
  "rngNext s = (case mulberry32 (rngState s) of (v, h) \<Rightarrow> (v, s\<lparr>rngState := h\<rparr>))"

text \<open>\<open>randomColor\<close> draws three numbers; the colour is not part of the model.\<close>

definition randomColor :: "composer \<Rightarrow> composer" where
  "randomColor s = snd (rngNext (snd (rngNext (snd (rngNext s)))))"

definition randomVelocity :: "real \<Rightarrow> composer \<Rightarrow> vec \<times> composer" where
  "randomVelocity speedScl s =
     (case rngNext s of
        (r1, s1) \<Rightarrow>
          (case rngNext s1 of
             (r2, s2) \<Rightarrow>
               (let angle = r1 * pi * 2;
                    baseSpeed = (4 / 10 + r2 * (6 / 10)) * 2;
                    speed = baseSpeed * speedScl
                in ((cos angle * speed, sin angle * speed), s2))))"

text \<open>
  \<open>takePresetIndex\<close>: \<open>splice(idx, 1)\<close> takes the entry at \<open>idx = floor(rng() * length)\<close>
  out of the list.  With an empty list it returns 0 and draws nothing.
\<close>

definition takePresetIndex :: "composer \<Rightarrow> nat \<times> composer" where
  "takePresetIndex s =
     (if length (availablePresetIndices s) = 0 then (0, s)
      else (case rngNext s of
              (r, s1) \<Rightarrow>
                (let idx = nat \<lfloor>r * real (length (availablePresetIndices s1))\<rfloor>
                 in (availablePresetIndices s1 ! idx,
                     s1\<lparr>availablePresetIndices :=
                          take idx (availablePresetIndices s1) @
                          drop (idx + 1) (availablePresetIndices s1)\<rparr>))))"

text \<open>
  \<open>makeMaterialFromPreset\<close> and the gradient branch of \<open>addTriangle\<close>: a preset that is
  missing, or neither solid nor a gradient, makes the code call \<open>randomColor\<close>.
\<close>

definition materialFor :: "nat \<Rightarrow> composer \<Rightarrow> composer" where
  "materialFor presetIndex s =
     (if presetIndex < length COLOR_PRESETS \<and>
         (COLOR_PRESETS ! presetIndex = Solid \<or> COLOR_PRESETS ! presetIndex = Gradient)
      then s else randomColor s)"

text \<open>The largest distance of a vertex from the centre, as both polygon builders compute it.\<close>

fun boundingRadiusLoop :: "vec list \<Rightarrow> real \<Rightarrow> real" where
  "boundingRadiusLoop [] r0 = r0"
| "boundingRadiusLoop (v # vs) r0 =
     boundingRadiusLoop vs (if hypot (fst v) (snd v) > r0 then hypot (fst v) (snd v) else r0)"

text \<open>
  The rotation trials of \<open>addRect\<close> and \<open>addTriangle\<close>: up to \<open>n\<close> attempts, each with a
  fresh \<open>mesh.rotation.z = rng() * Math.PI * 2\<close>, until \<open>placeMesh\<close> succeeds.  \<open>None\<close>: an
  attempt does not return.
\<close>

fun placeWithRotations ::
  "nat \<Rightarrow> real \<Rightarrow> vec list \<Rightarrow> shape \<Rightarrow> real \<Rightarrow> nat \<Rightarrow> composer \<Rightarrow> composer option" where
  "placeWithRotations 0 bRadius verts sType cRadius cIndex s = Some s"
| "placeWithRotations (Suc n) bRadius verts sType cRadius cIndex s =
     (case rngNext s of
        (r, s1) \<Rightarrow>
          (case placeMesh (r * pi * 2) bRadius verts sType cRadius cIndex (theWorld s1) of
             Hangs \<Rightarrow> None
           | Placed w \<Rightarrow> Some (s1\<lparr>theWorld := w\<rparr>)
           | Failed \<Rightarrow> placeWithRotations n bRadius verts sType cRadius cIndex s1))"

definition circleVerts :: "real \<Rightarrow> vec list" where
  "circleVerts physicalRadius =
     map (\<lambda>i. (cos (real i / 20 * pi * 2) * physicalRadius,
                sin (real i / 20 * pi * 2) * physicalRadius)) [0 ..< 20]"

definition addCircle :: "real \<Rightarrow> composer \<Rightarrow> composer option" where
  "addCircle radius s =
     (let physicalRadius = radius * 1
      in case takePresetIndex s of
           (presetIndex, s1) \<Rightarrow>
             (let s2 = materialFor presetIndex s1
              in case placeMesh 0 physicalRadius (circleVerts physicalRadius) Circle physicalRadius
                        presetIndex (theWorld s2) of
                   Hangs \<Rightarrow> None
                 | Failed \<Rightarrow> Some s2
                 | Placed w \<Rightarrow> Some (s2\<lparr>theWorld := w\<rparr>)))"

definition rectVerts :: "real \<Rightarrow> real \<Rightarrow> vec list" where
  "rectVerts hw hh = [(- hw, - hh), (hw, - hh), (hw, hh), (- hw, hh)]"

definition addRect :: "real \<Rightarrow> real \<Rightarrow> composer \<Rightarrow> composer option" where
  "addRect width height s =
     (let physicalWidth = width * 1;
          physicalHeight = height * 1
      in case takePresetIndex s of
           (presetIndex, s1) \<Rightarrow>
             (let s2 = materialFor presetIndex s1;
                  hw = physicalWidth * (5 / 10);
                  hh = physicalHeight * (5 / 10);
                  verts = rectVerts hw hh;
                  bRadius = boundingRadiusLoop verts 0;
                  cRadius = min hw hh * (7 / 10)
              in placeWithRotations 12 bRadius verts Rect cRadius presetIndex s2))"

definition addSquare :: "real \<Rightarrow> composer \<Rightarrow> composer option" where
  "addSquare sz = addRect sz sz"

definition triVerts :: "real \<Rightarrow> vec list" where
  "triVerts physicalSize =
     [(0, physicalSize),
      (- physicalSize * (866 / 1000), - physicalSize * (5 / 10)),
      (physicalSize * (866 / 1000), - physicalSize * (5 / 10))]"

definition addTriangle :: "real \<Rightarrow> composer \<Rightarrow> composer option" where
  "addTriangle sz s =
     (let physicalSize = sz * 1;
          verts = triVerts physicalSize
      in case takePresetIndex s of
           (presetIndex, s1) \<Rightarrow>
             (let s2 = materialFor presetIndex s1;
                  bRadius = boundingRadiusLoop verts 0;
                  cRadius = bRadius * (6 / 10)
              in placeWithRotations 10 bRadius verts Tri cRadius presetIndex s2))"

text \<open>
  The last loop of \<open>createShapes\<close>, per body: speed scale, a random velocity for a body
  that has none, and a random spin.
\<close>

definition launchBody :: "body \<Rightarrow> composer \<Rightarrow> body \<times> composer" where
  "launchBody b s =
     (let r = boundingRadius b;
          sizeNorm = max (3 / 10) r;
          speedScl = (18 / 10) / (6 / 10 + sizeNorm);
          b1 = b\<lparr>speedScale := Some speedScl\<rparr>
      in case (if fst (velocity b1) = 0 \<and> snd (velocity b1) = 0
               then (case randomVelocity speedScl s of (v, s1) \<Rightarrow> (b1\<lparr>velocity := v\<rparr>, s1))
               else (b1, s)) of
           (b2, s2) \<Rightarrow>
             (let spinBase = (if shapeType b2 = Rect \<or> shapeType b2 = Tri \<or> shapeType b2 = Circle
                              then 8 / 10 else 4 / 10);
                  spinScale = speedScl * (11 / 10)
              in case rngNext s2 of
                   (r3, s3) \<Rightarrow> (b2\<lparr>angularVelocity := (r3 - 5 / 10) * spinBase * spinScale\<rparr>, s3)))"

fun launchLoop :: "body list \<Rightarrow> composer \<Rightarrow> body list \<times> composer" where
  "launchLoop [] s = ([], s)"
| "launchLoop (b # bs) s =
     (case launchBody b s of
        (b', s1) \<Rightarrow> (case launchLoop bs s1 of (bs', s2) \<Rightarrow> (b' # bs', s2)))"

text \<open>The ten shapes in the order of \<open>createShapes\<close>; a call that does not return ends it.\<close>

definition addAllShapes :: "composer \<Rightarrow> composer option" where
  "addAllShapes s =
     Option.bind (addCircle (3 / 10) s) (\<lambda>s.
     Option.bind (addSquare (3 / 10) s) (\<lambda>s.
     Option.bind (addTriangle (3 / 10) s) (\<lambda>s.
     Option.bind (addRect 1 (2 / 10) s) (\<lambda>s.
     Option.bind (addCircle (65 / 100) s) (\<lambda>s.
     Option.bind (addSquare (8 / 10) s) (\<lambda>s.
     Option.bind (addRect 1 (4 / 10) s) (\<lambda>s.
     Option.bind (addTriangle 1 s) (\<lambda>s.
     Option.bind (addCircle (8 / 10) s) (\<lambda>s.
     addSquare (12 / 10) s)))))))))"

definition createShapes :: "32 word \<Rightarrow> world \<Rightarrow> world option" where
  "createShapes rng w =
     (case addAllShapes \<lparr>rngState = rng, availablePresetIndices = [0 ..< length COLOR_PRESETS],
                         theWorld = w\<rparr> of
        None \<Rightarrow> None
      | Some s \<Rightarrow>
          (let w1 = setPhysicsEnabled True (theWorld s)
           in case launchLoop (bodies w1) (s\<lparr>theWorld := w1\<rparr>) of
                (bs, s') \<Rightarrow> Some (w1\<lparr>bodies := bs\<rparr>)))"

text \<open>
  \<open>regenerateComposition\<close> does nothing without a scene; else it empties the registry,
  pauses, restarts the id counter at 1 and builds with a generator made from the seed.
\<close>

definition regenerateComposition :: "seed \<Rightarrow> world \<Rightarrow> world option" where
  "regenerateComposition seedStr w =
     (if \<not> sceneRef w then Some w
      else createShapes (createRng seedStr)
             ((setPhysicsEnabled False (w\<lparr>bodies := []\<rparr>))\<lparr>bodyById := Map.empty, nextBodyId := 1\<rparr>))"

text \<open>
  \<open>updateWorldBounds\<close>: the visible area at the plane of the shapes, for the camera of
  \<open>createScene\<close> (field of view 35 degrees, at distance 7).  \<open>aspect\<close> is \<open>camera.aspect\<close>, the
  width of the window over its height.
\<close>

definition updateWorldBounds :: "real \<Rightarrow> world \<Rightarrow> world" where
  "updateWorldBounds aspect w =
     (let vFov = 35 * pi / 180;
          halfHeight = tan (vFov / 2) * 7;
          halfWidth = halfHeight * aspect
      in w\<lparr>worldBoundsX := halfWidth * 1, worldBoundsY := halfHeight * 1\<rparr>)"

text \<open>
  The part of \<open>createScene\<close> that the core sees: the scene is stored, the world bounds are
  set from the camera, and the first composition is built.
\<close>

definition createScene :: "seed \<Rightarrow> real \<Rightarrow> world \<Rightarrow> world option" where
  "createScene seedStr aspect w =
     createShapes (createRng seedStr) (updateWorldBounds aspect (w\<lparr>sceneRef := True\<rparr>))"

section \<open>Predicates used in the statements about placement\<close>

text \<open>
  The overlap of an earlier body \<open>a\<close> and a later body \<open>b\<close> is within the tolerance: for two
  circles the centres are not closer than the sum of the contact radii by more than 3%
  of that sum; for any other pair the separating-axis test reports no hit, or a depth of
  at most 0.002.
\<close>

definition withinTolerance :: "body \<Rightarrow> body \<Rightarrow> bool" where
  "withinTolerance a b =
     (if shapeType a = Circle \<and> shapeType b = Circle
      then (contactRadius a + contactRadius b) - hypot (posX b - posX a) (posY b - posY a)
             \<le> (contactRadius a + contactRadius b) * (3 / 100)
      else (case polygonPolygonSAT (getWorldVertices a) (getWorldVertices b) of
              SatNull \<Rightarrow> True
            | SatUnbounded \<Rightarrow> False
            | SatHit normal depth \<Rightarrow> depth \<le> 2 / 1000))"

definition noOverlap :: "body list \<Rightarrow> bool" where
  "noOverlap bs \<longleftrightarrow> (\<forall>(i, j) \<in> set (allPairs (length bs)). withinTolerance (bs ! i) (bs ! j))"

text \<open>
  A circle of radius \<open>r\<close> about \<open>c\<close> lies inside the world bounds, with the margin 0.001 of
  the special case.
\<close>

definition insideBounds :: "real \<Rightarrow> real \<Rightarrow> real \<Rightarrow> vec \<Rightarrow> bool" where
  "insideBounds bndX bndY r c \<longleftrightarrow>
     - bndX + 1 / 1000 \<le> fst c - r \<and> fst c + r \<le> bndX - 1 / 1000 \<and>
     - bndY + 1 / 1000 \<le> snd c - r \<and> snd c + r \<le> bndY - 1 / 1000"

text \<open>The body that a successful \<open>placeMesh\<close> appends, as it stands in \<open>bodies\<close>.\<close>

definition placedBody ::
  "world \<Rightarrow> real \<Rightarrow> real \<Rightarrow> real \<Rightarrow> vec list \<Rightarrow> real \<Rightarrow> real \<Rightarrow> shape \<Rightarrow> nat \<Rightarrow> body" where
  "placedBody w x y rot verts bRadius cRadius sType cIndex =
     (bodyLiteral x y rot verts bRadius cRadius sType cIndex)
       \<lparr>body_id := nextBodyId w, isMagnetAnchored := False\<rparr>"

text \<open>
  Two circles of radius 0.3 that touch, as bodies of a world; a third circle of radius 0.2
  fits against both at \<open>(0.3, 0.4)\<close> and at \<open>(0.3, -0.4)\<close>.
\<close>

definition exampleCircle :: "real \<Rightarrow> real \<Rightarrow> real \<Rightarrow> nat \<Rightarrow> body" where
  "exampleCircle r x y cIndex = bodyLiteral x y 0 (circleVerts r) r r Circle cIndex"

definition twoCircles :: world where
  "twoCircles = exampleWorld [exampleCircle (3 / 10) 0 0 0, exampleCircle (3 / 10) (6 / 10) 0 1]"

text \<open>
  \<open>placements w w'\<close>: the world \<open>w'\<close> arises from \<open>w\<close> by successful calls of \<open>placeMesh\<close>.
\<close>

inductive placements :: "world \<Rightarrow> world \<Rightarrow> bool" where
  placements_none: "placements w w"
| placements_step:
    "placements w w1 \<Longrightarrow> placeMesh rot bRadius verts sType cRadius cIndex w1 = Placed w2 \<Longrightarrow>
     placements w w2"

text \<open>The fields of a body that the overlap test reads.\<close>

definition sameShape :: "body \<Rightarrow> body \<Rightarrow> bool" where
  "sameShape a a' \<longleftrightarrow>
     posX a' = posX a \<and> posY a' = posY a \<and> rotZ a' = rotZ a \<and> localVerts a' = localVerts a \<and>
     contactRadius a' = contactRadius a \<and> boundingRadius a' = boundingRadius a \<and>
     shapeType a' = shapeType a \<and> body_id a' = body_id a \<and> colorIndex a' = colorIndex a"

text \<open>
  The registry holds the ids \<open>m, m + 1, ...\<close> in the order of \<open>bodies\<close>, the counter is the
  next one, and \<open>bodyById\<close> finds every body under its id and nothing else.
\<close>

definition registryFrom :: "nat \<Rightarrow> world \<Rightarrow> bool" where
  "registryFrom m w \<longleftrightarrow>
     map body_id (bodies w) = [m ..< m + length (bodies w)] \<and>
     nextBodyId w = m + length (bodies w) \<and>
     (\<forall>i. bodyById w i = (if m \<le> i \<and> i < m + length (bodies w) then Some (i - m) else None))"

section \<open>Two compositions of one session\<close>

text \<open>
  The start-up composition for the seed \<open>"a"\<close> in a window twice as wide as high, and
  the composition that a rebuild with the seed \<open>"c"\<close> puts in its place.
  \<open>firstIdAndColour\<close> reads the id and the colour index of the first body of a world.
\<close>

definition firstComposition :: "world option" where
  "firstComposition = createScene [97] 2 initialWorld"

definition rebuiltComposition :: "world option" where
  "rebuiltComposition = Option.bind firstComposition (regenerateComposition [99])"

definition firstIdAndColour :: "world \<Rightarrow> (nat \<times> nat option) list" where
  "firstIdAndColour w = map (\<lambda>b. (body_id b, colorIndex b)) (take 1 (bodies w))"

section \<open>The colour-transfer switch, which building does not read\<close>

text \<open>
  \<open>switchWorld c w\<close> is the world \<open>w\<close> with the colour-transfer switch set to \<open>c\<close>, and
  \<open>switchComposer\<close> the same for the world that a build threads through its helpers.
\<close>

definition switchWorld :: "bool \<Rightarrow> world \<Rightarrow> world" where
  "switchWorld c w = w\<lparr>colorTransferEnabled := c\<rparr>"

definition switchComposer :: "bool \<Rightarrow> composer \<Rightarrow> composer" where
  "switchComposer c s = s\<lparr>theWorld := switchWorld c (theWorld s)\<rparr>"

section \<open>Predicates and states for the pause without an impulse\<close>

text \<open>
  No pair is approaching when the pair loop comes to it: the pairs in the order of the
  loop, each one tested on the bodies as the pairs before it have left them.  For such a
  pair the loop applies no impulse, no spin and no colour exchange; a hit still moves the
  two bodies apart.
\<close>

fun noApproach :: "bool \<Rightarrow> (nat \<times> nat) list \<Rightarrow> body list \<Rightarrow> bool" where
  "noApproach colorTransfer [] bs = True"
| "noApproach colorTransfer ((i, j) # rest) bs =
     (\<not> approachingHit (bs ! i) (bs ! j) \<and>
      (case resolvePair colorTransfer (bs ! i) (bs ! j) of
         None \<Rightarrow> True
       | Some (a', b') \<Rightarrow> noApproach colorTransfer rest (bs[i := a', j := b'])))"

text \<open>What the pause test reads of a body.\<close>

definition sameMotion :: "body \<Rightarrow> body \<Rightarrow> bool" where
  "sameMotion a a' \<longleftrightarrow>
     velocity a' = velocity a \<and> angularVelocity a' = angularVelocity a \<and>
     isDragged a' = isDragged a"

text \<open>
  A running state of two rectangles that lie still and overlap: the second reaches 0.1
  into the first from the right.
\<close>

definition restingWorld :: world where
  "restingWorld = exampleWorld [exampleRect 0 0 2, exampleRect (1 / 2) 0 7]"

section \<open>A rebuild after a resize\<close>

text \<open>
  \<open>onResize\<close>: the camera takes the aspect of the window and the world bounds are
  recomputed; the bodies are left where they are.  \<open>narrowRebuild\<close> is the composition that
  a rebuild with the seed \<open>"a"\<close> again makes of the start-up composition after the window
  has been resized to 10 by 1000.
\<close>

definition onResize :: "real \<Rightarrow> real \<Rightarrow> world \<Rightarrow> world" where
  "onResize width height w = updateWorldBounds (width / height) w"

definition narrowRebuild :: "world option" where
  "narrowRebuild =
     Option.bind (map_option (onResize 10 1000) firstComposition) (regenerateComposition [97])"

section \<open>Geometry kernel: facts\<close>

lemma projectOntoAxis_loop_Some:
  "projectOntoAxis_loop (Some (mn, mx)) vs axis =
     Some (Min (insert mn ((\<lambda>v. dot v axis) ` set vs)), Max (insert mx ((\<lambda>v. dot v axis) ` set vs)))"
proof (induction vs arbitrary: mn mx)
  case Nil
  show ?case by simp
next
  case (Cons v vs)
  let ?p = "dot v axis"
  let ?S = "(\<lambda>v. dot v axis) ` set vs"
  have fin: "finite ?S" by simp
  have mn: "Min (insert (if ?p < mn then ?p else mn) ?S) = Min (insert mn (insert ?p ?S))"
  proof -
    have "Min (insert mn (insert ?p ?S)) = min mn (Min (insert ?p ?S))"
      using fin by (simp add: Min_insert)
    also have "\<dots> = Min (insert (min mn ?p) ?S)"
      using fin by (cases "?S = {}") (simp_all add: Min_insert min.assoc)
    also have "min mn ?p = (if ?p < mn then ?p else mn)" by (simp add: min_def)
    finally show ?thesis by simp
  qed
  have mx: "Max (insert (if ?p > mx then ?p else mx) ?S) = Max (insert mx (insert ?p ?S))"
  proof -
    have "Max (insert mx (insert ?p ?S)) = max mx (Max (insert ?p ?S))"
      using fin by (simp add: Max_insert)
    also have "\<dots> = Max (insert (max mx ?p) ?S)"
      using fin by (cases "?S = {}") (simp_all add: Max_insert max.assoc)
    also have "max mx ?p = (if ?p > mx then ?p else mx)" by (simp add: max_def)
    finally show ?thesis by simp
  qed
  have step: "projectOntoAxis_loop (Some (mn, mx)) (v # vs) axis =
      projectOntoAxis_loop (Some (if ?p < mn then ?p else mn, if ?p > mx then ?p else mx)) vs axis"
    by (simp add: dot_def Let_def)
  have "projectOntoAxis_loop (Some (mn, mx)) (v # vs) axis =
      Some (Min (insert mn (insert ?p ?S)), Max (insert mx (insert ?p ?S)))"
    unfolding step Cons.IH mn mx ..
  then show ?case by simp
qed

lemma projectOntoAxis_nonempty:
  assumes "verts \<noteq> []"
  shows "projectOntoAxis verts axis =
           Some (Min ((\<lambda>v. dot v axis) ` set verts), Max ((\<lambda>v. dot v axis) ` set verts))"
proof -
  obtain v vs where verts: "verts = v # vs"
    using assms by (cases verts) auto
  have "projectOntoAxis verts axis = projectOntoAxis_loop (Some (dot v axis, dot v axis)) vs axis"
    by (simp add: projectOntoAxis_def verts dot_def Let_def)
  then show ?thesis
    by (simp add: projectOntoAxis_loop_Some verts)
qed

lemma overlapIntervals_nonempty:
  assumes "vertsA \<noteq> []" and "vertsB \<noteq> []"
  shows "overlapIntervals (projectOntoAxis vertsA axis) (projectOntoAxis vertsB axis) =
           Some (axisOverlap vertsA vertsB axis)"
  using assms by (simp add: projectOntoAxis_nonempty overlapIntervals_def axisOverlap_def)

lemma hypot_eq_0_iff: "hypot a b = 0 \<longleftrightarrow> a = 0 \<and> b = 0"
  by (simp add: hypot_def add_nonneg_eq_0_iff)

lemma checkAxes_loop_step:
  assumes "vertsA \<noteq> []" and "vertsB \<noteq> []"
  shows "checkAxes_loop vertsA vertsB verts1 (i # rest) acc =
     (case edgeNormal verts1 i of
        None \<Rightarrow> checkAxes_loop vertsA vertsB verts1 rest acc
      | Some axis \<Rightarrow>
          if axisOverlap vertsA vertsB axis \<le> 0 then None
          else checkAxes_loop vertsA vertsB verts1 rest
                 (updateBest acc (axisOverlap vertsA vertsB axis) axis))"
  using assms
  by (simp add: edgeNormal_def hypot_def Let_def overlapIntervals_nonempty)

lemma checkAxes_loop_None_iff:
  assumes "vertsA \<noteq> []" and "vertsB \<noteq> []"
  shows "checkAxes_loop vertsA vertsB verts1 idx acc = None \<longleftrightarrow>
     (\<exists>axis \<in> set (List.map_filter (edgeNormal verts1) idx). axisOverlap vertsA vertsB axis \<le> 0)"
proof (induction idx arbitrary: acc)
  case Nil
  show ?case by (simp add: map_filter_simps)
next
  case (Cons i rest)
  show ?case
    unfolding checkAxes_loop_step [OF assms]
    by (cases "edgeNormal verts1 i") (auto simp: map_filter_simps Cons.IH)
qed

lemma checkAxes_loop_Some:
  assumes "vertsA \<noteq> []" and "vertsB \<noteq> []"
    and "checkAxes_loop vertsA vertsB verts1 idx acc = Some acc'"
    and "satAccOk vertsA vertsB pre acc"
  shows "satAccOk vertsA vertsB (pre @ List.map_filter (edgeNormal verts1) idx) acc'"
  using assms(3,4)
proof (induction idx arbitrary: acc pre)
  case Nil
  then show ?case by (simp add: map_filter_simps)
next
  case (Cons i rest)
  show ?case
  proof (cases "edgeNormal verts1 i")
    case None
    with Cons.prems(1) [unfolded checkAxes_loop_step [OF assms(1,2)]]
    have "checkAxes_loop vertsA vertsB verts1 rest acc = Some acc'"
      by simp
    from Cons.IH [OF this Cons.prems(2)] show ?thesis
      by (simp add: map_filter_simps None)
  next
    case (Some axis)
    let ?ov = "axisOverlap vertsA vertsB axis"
    let ?acc1 = "updateBest acc ?ov axis"
    from Cons.prems(1) [unfolded checkAxes_loop_step [OF assms(1,2)]] Some
    have pos: "0 < ?ov"
      and run: "checkAxes_loop vertsA vertsB verts1 rest ?acc1 = Some acc'"
      by (auto split: if_splits)
    have "satAccOk vertsA vertsB (pre @ [axis]) ?acc1"
      using Cons.prems(2) pos
      by (auto simp: satAccOk_def updateBest_def split: option.splits)
    from Cons.IH [OF run this] show ?thesis
      by (simp add: map_filter_simps Some)
  qed
qed

lemma edgeNormal_unit:
  assumes "edgeNormal verts i = Some axis"
  shows "hypot (fst axis) (snd axis) = 1"
proof -
  define ex where "ex = fst (verts ! ((i + 1) mod length verts)) - fst (verts ! i)"
  define ey where "ey = snd (verts ! ((i + 1) mod length verts)) - snd (verts ! i)"
  define len where "len = sqrt (ey * ey + ex * ex)"
  from assms have nz: "len \<noteq> 0" and axis: "axis = (- ey / len, ex / len)"
    by (auto simp: edgeNormal_def Let_def ex_def ey_def len_def split: if_splits)
  have len2: "len * len = ey * ey + ex * ex"
    by (simp add: len_def)
  have "(- ey / len) * (- ey / len) + (ex / len) * (ex / len) = (ey * ey + ex * ex) / (len * len)"
    by (simp add: add_divide_distrib)
  also have "\<dots> = (len * len) / (len * len)" by (simp only: len2)
  also have "\<dots> = 1" using nz by simp
  finally show ?thesis by (simp add: hypot_def axis)
qed

lemma set_map_filter_iff: "y \<in> set (List.map_filter f xs) \<longleftrightarrow> (\<exists>x \<in> set xs. f x = Some y)"
  by (induction xs) (auto split: option.splits)

lemma edgeAxes_unit: "axis \<in> set (edgeAxes verts) \<Longrightarrow> hypot (fst axis) (snd axis) = 1"
  by (auto simp: edgeAxes_def set_map_filter_iff edgeNormal_unit)

text \<open>
  Claim C4.  For two polygons with at least one vertex each (so in particular for convex
  polygons with three or more vertices), \<open>polygonPolygonSAT\<close> returns \<open>null\<close> exactly
  when some normalised edge normal of \<open>vertsA\<close> or of \<open>vertsB\<close>, zero-length edges left
  out, gives an interval overlap \<open>\<le> 0\<close>.  Otherwise, as soon as one edge of either polygon
  has a length, it returns \<open>{normal, depth}\<close> where \<open>normal\<close> is one of those axes, of
  length 1, and \<open>depth\<close> is its overlap, positive and least among the overlaps of all
  tested axes.
\<close>

theorem polygonPolygonSAT_spec:
  assumes "vertsA \<noteq> []" and "vertsB \<noteq> []"
  shows "(polygonPolygonSAT vertsA vertsB = SatNull \<longleftrightarrow>
            (\<exists>axis \<in> set (edgeAxes vertsA @ edgeAxes vertsB). axisOverlap vertsA vertsB axis \<le> 0)) \<and>
         (polygonPolygonSAT vertsA vertsB \<noteq> SatNull \<longrightarrow> edgeAxes vertsA @ edgeAxes vertsB \<noteq> [] \<longrightarrow>
            (\<exists>normal depth. polygonPolygonSAT vertsA vertsB = SatHit normal depth \<and>
               normal \<in> set (edgeAxes vertsA @ edgeAxes vertsB) \<and>
               hypot (fst normal) (snd normal) = 1 \<and>
               depth = axisOverlap vertsA vertsB normal \<and> 0 < depth \<and>
               (\<forall>axis \<in> set (edgeAxes vertsA @ edgeAxes vertsB). depth \<le> axisOverlap vertsA vertsB axis)))"
proof -
  let ?axes = "edgeAxes vertsA @ edgeAxes vertsB"
  let ?c1 = "checkAxes vertsA vertsB vertsA None"
  have null_iff: "polygonPolygonSAT vertsA vertsB = SatNull \<longleftrightarrow>
      (\<exists>axis \<in> set ?axes. axisOverlap vertsA vertsB axis \<le> 0)"
  proof (cases ?c1)
    case None
    then show ?thesis
      using checkAxes_loop_None_iff [OF assms, of vertsA "[0 ..< length vertsA]" None]
      by (auto simp: polygonPolygonSAT_def checkAxes_def edgeAxes_def)
  next
    case (Some acc1)
    then have noA: "\<not> (\<exists>axis \<in> set (edgeAxes vertsA). axisOverlap vertsA vertsB axis \<le> 0)"
      using checkAxes_loop_None_iff [OF assms, of vertsA "[0 ..< length vertsA]" None]
      by (simp add: checkAxes_def edgeAxes_def)
    have "checkAxes vertsA vertsB vertsB acc1 = None \<longleftrightarrow>
        (\<exists>axis \<in> set (edgeAxes vertsB). axisOverlap vertsA vertsB axis \<le> 0)"
      using checkAxes_loop_None_iff [OF assms, of vertsB "[0 ..< length vertsB]" acc1]
      by (simp add: checkAxes_def edgeAxes_def)
    with Some noA show ?thesis
      by (auto simp: polygonPolygonSAT_def split: option.splits)
  qed
  have hit: "\<exists>normal depth. polygonPolygonSAT vertsA vertsB = SatHit normal depth \<and>
               normal \<in> set ?axes \<and> hypot (fst normal) (snd normal) = 1 \<and>
               depth = axisOverlap vertsA vertsB normal \<and> 0 < depth \<and>
               (\<forall>axis \<in> set ?axes. depth \<le> axisOverlap vertsA vertsB axis)"
    if nn: "polygonPolygonSAT vertsA vertsB \<noteq> SatNull" and ne: "?axes \<noteq> []"
  proof -
    from nn obtain acc1 acc2 where c1: "?c1 = Some acc1"
      and c2: "checkAxes vertsA vertsB vertsB acc1 = Some acc2"
      by (auto simp: polygonPolygonSAT_def split: option.splits)
    have "satAccOk vertsA vertsB [] None" by (simp add: satAccOk_def)
    from checkAxes_loop_Some [OF assms c1 [unfolded checkAxes_def] this]
    have ok1: "satAccOk vertsA vertsB (edgeAxes vertsA) acc1"
      by (simp add: edgeAxes_def)
    from checkAxes_loop_Some [OF assms c2 [unfolded checkAxes_def] ok1]
    have ok2: "satAccOk vertsA vertsB ?axes acc2"
      by (simp add: edgeAxes_def)
    with ne obtain d n where acc2: "acc2 = Some (d, n)"
      by (cases acc2) (auto simp: satAccOk_def)
    have res: "polygonPolygonSAT vertsA vertsB = SatHit n d"
      by (simp add: polygonPolygonSAT_def c1 c2 acc2)
    from ok2 acc2 have "n \<in> set ?axes" "d = axisOverlap vertsA vertsB n" "0 < d"
      "\<forall>axis \<in> set ?axes. d \<le> axisOverlap vertsA vertsB axis"
      by (auto simp: satAccOk_def)
    moreover from \<open>n \<in> set ?axes\<close> have "hypot (fst n) (snd n) = 1"
      by (auto dest: edgeAxes_unit)
    ultimately show ?thesis using res by blast
  qed
  show ?thesis using null_iff hit by blast
qed

lemma polygonPolygonSAT_all_degenerate:
  assumes "vertsA \<noteq> []" and "vertsB \<noteq> []" and "edgeAxes vertsA @ edgeAxes vertsB = []"
  shows "polygonPolygonSAT vertsA vertsB = SatUnbounded"
proof -
  from assms(3) have eA: "List.map_filter (edgeNormal vertsA) [0 ..< length vertsA] = []"
    and eB: "List.map_filter (edgeNormal vertsB) [0 ..< length vertsB] = []"
    by (simp_all add: edgeAxes_def)
  have n1: "checkAxes vertsA vertsB vertsA None \<noteq> None"
    using checkAxes_loop_None_iff [OF assms(1,2), of vertsA "[0 ..< length vertsA]" None] eA
    by (simp add: checkAxes_def)
  then obtain acc1 where c1: "checkAxes vertsA vertsB vertsA None = Some acc1" by auto
  have "satAccOk vertsA vertsB [] None" by (simp add: satAccOk_def)
  from checkAxes_loop_Some [OF assms(1,2) c1 [unfolded checkAxes_def] this] eA
  have a1: "acc1 = None" by (cases acc1) (auto simp: satAccOk_def)
  have n2: "checkAxes vertsA vertsB vertsB None \<noteq> None"
    using checkAxes_loop_None_iff [OF assms(1,2), of vertsB "[0 ..< length vertsB]" None] eB
    by (simp add: checkAxes_def)
  then obtain acc2 where c2: "checkAxes vertsA vertsB vertsB None = Some acc2" by auto
  have "satAccOk vertsA vertsB [] None" by (simp add: satAccOk_def)
  from checkAxes_loop_Some [OF assms(1,2) c2 [unfolded checkAxes_def] this] eB
  have a2: "acc2 = None" by (cases acc2) (auto simp: satAccOk_def)
  show ?thesis by (simp add: polygonPolygonSAT_def c1 a1 c2 a2)
qed

theorem polygonPolygonSAT_spec_witness:
  "polygonPolygonSAT [(0,0),(1,0),(1,1),(0,1)] [(1/2,1/4),(3/2,1/4),(3/2,5/4),(1/2,5/4)] = SatHit (-1, 0) (1/2) \<and>
   (\<exists>normal depth.
      polygonPolygonSAT [(0,0),(1,0),(1,1),(0,1)] [(1/2,1/4),(3/2,1/4),(3/2,5/4),(1/2,5/4)] = SatHit normal depth \<and>
      normal \<in> set (edgeAxes [(0,0),(1,0),(1,1),(0,1)] @ edgeAxes [(1/2,1/4),(3/2,1/4),(3/2,5/4),(1/2,5/4)]) \<and>
      hypot (fst normal) (snd normal) = 1 \<and>
      depth = axisOverlap [(0,0),(1,0),(1,1),(0,1)] [(1/2,1/4),(3/2,1/4),(3/2,5/4),(1/2,5/4)] normal \<and>
      0 < depth \<and>
      (\<forall>axis \<in> set (edgeAxes [(0,0),(1,0),(1,1),(0,1)] @ edgeAxes [(1/2,1/4),(3/2,1/4),(3/2,5/4),(1/2,5/4)]).
          depth \<le> axisOverlap [(0,0),(1,0),(1,1),(0,1)] [(1/2,1/4),(3/2,1/4),(3/2,5/4),(1/2,5/4)] axis))"
proof -
  let ?A = "[(0,0),(1,0),(1,1),(0,1)] :: vec list"
  let ?B = "[(1/2,1/4),(3/2,1/4),(3/2,5/4),(1/2,5/4)] :: vec list"
  have a: "?A \<noteq> []" and b: "?B \<noteq> []" by simp_all
  have hit: "polygonPolygonSAT ?A ?B = SatHit (-1, 0) (1/2)"
    by (simp add: polygonPolygonSAT_def checkAxes_def upt_rec hypot_def projectOntoAxis_def
        overlapIntervals_def updateBest_def)
  have ne: "edgeAxes ?A @ edgeAxes ?B \<noteq> []"
    by (simp add: edgeAxes_def edgeNormal_def upt_rec)
  from polygonPolygonSAT_spec [OF a b] hit ne show ?thesis
    by simp
qed

lemma hypot_scale: "hypot (k * a) (k * b) = \<bar>k\<bar> * hypot a b"
proof -
  have "(k * a) * (k * a) + (k * b) * (k * b) = (k * k) * (a * a + b * b)"
    by (simp add: algebra_simps)
  then show ?thesis
    by (simp add: hypot_def real_sqrt_mult)
qed

lemma hypot_neg1 [simp]: "hypot (- a) b = hypot a b"
  by (simp add: hypot_def)

lemma hypot_neg2 [simp]: "hypot a (- b) = hypot a b"
  by (simp add: hypot_def)

lemma hypot_nonneg [simp]: "0 \<le> hypot a b"
  by (simp add: hypot_def)

lemma linearDrag_bounds:
  assumes "0 \<le> dt"
  shows "0 < linearDrag dt" and "linearDrag dt < 1"
proof -
  have e: "exp (- FLUID_LINEAR_VISCOSITY * dt) \<le> 1"
    using assms by (simp add: FLUID_LINEAR_VISCOSITY_def)
  show "0 < linearDrag dt"
    by (simp add: linearDrag_def BASE_LINEAR_DAMPING_def)
  have "BASE_LINEAR_DAMPING * exp (- FLUID_LINEAR_VISCOSITY * dt) \<le> BASE_LINEAR_DAMPING * 1"
    by (rule mult_left_mono [OF e]) (simp add: BASE_LINEAR_DAMPING_def)
  also have "\<dots> < 1"
    by (simp add: BASE_LINEAR_DAMPING_def)
  finally show "linearDrag dt < 1" by (simp add: linearDrag_def)
qed

lemma angDrag_bounds:
  assumes "0 \<le> dt"
  shows "0 < angDrag dt" and "angDrag dt < 1"
proof -
  have e: "exp (- FLUID_ANGULAR_VISCOSITY * dt) \<le> 1"
    using assms by (simp add: FLUID_ANGULAR_VISCOSITY_def)
  show "0 < angDrag dt"
    by (simp add: angDrag_def BASE_ANGULAR_DAMPING_def)
  have "BASE_ANGULAR_DAMPING * exp (- FLUID_ANGULAR_VISCOSITY * dt) \<le> BASE_ANGULAR_DAMPING * 1"
    by (rule mult_left_mono [OF e]) (simp add: BASE_ANGULAR_DAMPING_def)
  also have "\<dots> < 1"
    by (simp add: BASE_ANGULAR_DAMPING_def)
  finally show "angDrag dt < 1" by (simp add: angDrag_def)
qed

text \<open>What the first loop does to a body that is not dragged.\<close>

lemma moveBody_free_speed:
  assumes "\<not> isDragged b"
  shows "hypot (fst (velocity (moveBody dt bndX bndY b))) (snd (velocity (moveBody dt bndX bndY b))) =
           linearDrag dt * hypot (fst (velocity b)) (snd (velocity b))"
proof -
  let ?k = "linearDrag dt"
  have k: "0 \<le> ?k" by (simp add: linearDrag_def BASE_LINEAR_DAMPING_def)
  have "hypot (fst (velocity (moveBody dt bndX bndY b))) (snd (velocity (moveBody dt bndX bndY b))) =
        hypot (?k * fst (velocity b)) (?k * snd (velocity b))"
    using assms by (simp add: moveBody_def Let_def mult.commute)
  also have "\<dots> = \<bar>?k\<bar> * hypot (fst (velocity b)) (snd (velocity b))"
    by (rule hypot_scale)
  finally show ?thesis using k by simp
qed

lemma moveBody_free_inside:
  assumes "\<not> isDragged b" and "boundingRadius b \<le> bndX" and "boundingRadius b \<le> bndY"
  shows "\<bar>posX (moveBody dt bndX bndY b)\<bar> \<le> bndX - boundingRadius b"
    and "\<bar>posY (moveBody dt bndX bndY b)\<bar> \<le> bndY - boundingRadius b"
  using assms by (auto simp: moveBody_def Let_def)

lemma moveBody_boundingRadius [simp]: "boundingRadius (moveBody dt bndX bndY b) = boundingRadius b"
  by (simp add: moveBody_def Let_def)

lemma moveBody_isDragged [simp]: "isDragged (moveBody dt bndX bndY b) = isDragged b"
  by (simp add: moveBody_def Let_def)

lemma allPairs_1 [simp]: "allPairs (Suc 0) = []"
  by (simp add: allPairs_def)

lemma updatePhysics_single:
  assumes "physicsEnabled w" and "bodies w = [b]"
  shows "\<exists>w'. updatePhysics dt w = Some w' \<and>
           bodies w' = [moveBody dt (worldBoundsX w) (worldBoundsY w) b] \<and>
           worldBoundsX w' = worldBoundsX w \<and> worldBoundsY w' = worldBoundsY w"
  using assms by (simp add: updatePhysics_def Let_def setPhysicsEnabled_def)

text \<open>
  Claim C7.  A running world that holds one body, not dragged, whose bounding radius is at
  most both world bounds: the step returns, the world bounds and the radius are what
  they were, the body's centre is within \<open>worldBoundsX - r\<close> and \<open>worldBoundsY - r\<close> of the
  origin, it is still not dragged, and its speed, when not zero, is strictly smaller than
  before (by the factor \<open>linearDrag dt = 0.998 * exp (-1.2 * dt)\<close>).  The hypotheses hold again after the
  step as long as the world runs, so the statement covers every later step.
\<close>

theorem single_body_stays_inside_and_slows:
  assumes "physicsEnabled w" and "bodies w = [b]" and "\<not> isDragged b"
    and "boundingRadius b \<le> worldBoundsX w" and "boundingRadius b \<le> worldBoundsY w"
    and "0 \<le> dt"
  shows "\<exists>w' b'. updatePhysics dt w = Some w' \<and> bodies w' = [b'] \<and>
           worldBoundsX w' = worldBoundsX w \<and> worldBoundsY w' = worldBoundsY w \<and>
           boundingRadius b' = boundingRadius b \<and>
           \<bar>posX b'\<bar> \<le> worldBoundsX w - boundingRadius b \<and>
           \<bar>posY b'\<bar> \<le> worldBoundsY w - boundingRadius b \<and>
           \<not> isDragged b' \<and>
           hypot (fst (velocity b')) (snd (velocity b')) \<le> hypot (fst (velocity b)) (snd (velocity b)) \<and>
           (hypot (fst (velocity b)) (snd (velocity b)) \<noteq> 0 \<longrightarrow>
              hypot (fst (velocity b')) (snd (velocity b')) < hypot (fst (velocity b)) (snd (velocity b)))"
proof -
  let ?b' = "moveBody dt (worldBoundsX w) (worldBoundsY w) b"
  let ?k = "linearDrag dt"
  let ?s = "hypot (fst (velocity b)) (snd (velocity b))"
  from updatePhysics_single [OF assms(1,2)] obtain w' where
    w': "updatePhysics dt w = Some w'" "bodies w' = [?b']"
        "worldBoundsX w' = worldBoundsX w" "worldBoundsY w' = worldBoundsY w"
    by blast
  have inside: "\<bar>posX ?b'\<bar> \<le> worldBoundsX w - boundingRadius b"
               "\<bar>posY ?b'\<bar> \<le> worldBoundsY w - boundingRadius b"
    using moveBody_free_inside [OF assms(3,4,5)] by simp_all
  have speed: "hypot (fst (velocity ?b')) (snd (velocity ?b')) = ?k * ?s"
    by (rule moveBody_free_speed [OF assms(3)])
  have s0: "0 \<le> ?s" by simp
  have slower: "?k * ?s < ?s" if "?s \<noteq> 0"
  proof -
    from that s0 have "0 < ?s" by linarith
    with linearDrag_bounds(2) [OF assms(6)] show ?thesis by simp
  qed
  have le: "?k * ?s \<le> ?s"
  proof (cases "?s = 0")
    case True
    then show ?thesis by simp
  next
    case False
    from slower [OF this] show ?thesis by (rule less_imp_le)
  qed
  show ?thesis
    using w' inside speed slower le assms(3) by (intro exI [of _ w'] exI [of _ ?b']) simp
qed

subsection \<open>The axis walk without assumptions on the vertex lists\<close>



lemma checkAxes_loop_Cons:
  "checkAxes_loop vertsA vertsB verts1 (i # rest) acc =
     (case edgeNormal verts1 i of
        None \<Rightarrow> checkAxes_loop vertsA vertsB verts1 rest acc
      | Some axis \<Rightarrow>
          (case overlapIntervals (projectOntoAxis vertsA axis) (projectOntoAxis vertsB axis) of
             None \<Rightarrow> None
           | Some ov \<Rightarrow>
               if ov \<le> 0 then None
               else checkAxes_loop vertsA vertsB verts1 rest (updateBest acc ov axis)))"
  by (simp add: edgeNormal_def hypot_def Let_def)

lemma updateBest_not_None [simp]: "updateBest acc ov axis \<noteq> None"
  by (cases acc) (auto simp: updateBest_def)

lemma checkAxes_loop_origin:
  assumes "checkAxes_loop vertsA vertsB verts1 idx acc = Some acc'"
  shows "(acc' = None \<longleftrightarrow> acc = None \<and> List.map_filter (edgeNormal verts1) idx = []) \<and>
         (satAccUnit acc \<longrightarrow> satAccUnit acc')"
  using assms
proof (induction idx arbitrary: acc)
  case Nil
  then show ?case by auto
next
  case (Cons i rest)
  show ?case
  proof (cases "edgeNormal verts1 i")
    case None
    with Cons.prems [unfolded checkAxes_loop_Cons]
    have "checkAxes_loop vertsA vertsB verts1 rest acc = Some acc'" by simp
    from Cons.IH [OF this] None show ?thesis by simp
  next
    case (Some axis)
    show ?thesis
    proof (cases "overlapIntervals (projectOntoAxis vertsA axis) (projectOntoAxis vertsB axis)")
      case None
      with Some Cons.prems [unfolded checkAxes_loop_Cons] show ?thesis by simp
    next
      case (Some ov) note ov = this
      from \<open>edgeNormal verts1 i = Some axis\<close> ov Cons.prems [unfolded checkAxes_loop_Cons]
      have pos: "0 < ov"
        and run: "checkAxes_loop vertsA vertsB verts1 rest (updateBest acc ov axis) = Some acc'"
        by (simp_all split: if_splits)
      have unit: "hypot (fst axis) (snd axis) = 1"
        using \<open>edgeNormal verts1 i = Some axis\<close> by (rule edgeNormal_unit)
      have "satAccUnit acc \<longrightarrow> satAccUnit (updateBest acc ov axis)"
        using pos unit by (auto simp: satAccUnit_def updateBest_def split: option.splits)
      with Cons.IH [OF run] \<open>edgeNormal verts1 i = Some axis\<close> show ?thesis
        by simp
    qed
  qed
qed

lemma polygonPolygonSAT_SatHit_unit:
  assumes "polygonPolygonSAT vertsA vertsB = SatHit normal depth"
  shows "hypot (fst normal) (snd normal) = 1" and "0 < depth"
proof -
  from assms obtain acc1 where
    c1: "checkAxes_loop vertsA vertsB vertsA [0 ..< length vertsA] None = Some acc1" and
    c2: "checkAxes_loop vertsA vertsB vertsB [0 ..< length vertsB] acc1 = Some (Some (depth, normal))"
    by (auto simp: polygonPolygonSAT_def checkAxes_def split: option.splits)
  have "satAccUnit None" by (simp add: satAccUnit_def)
  with checkAxes_loop_origin [OF c1] have "satAccUnit acc1" by simp
  with checkAxes_loop_origin [OF c2] have "satAccUnit (Some (depth, normal))" by simp
  then show "hypot (fst normal) (snd normal) = 1" and "0 < depth"
    by (simp_all add: satAccUnit_def)
qed

lemma polygonPolygonSAT_SatUnbounded:
  assumes "polygonPolygonSAT vertsA vertsB = SatUnbounded"
  shows "edgeAxes vertsA = []" and "edgeAxes vertsB = []"
proof -
  from assms obtain acc1 where
    c1: "checkAxes_loop vertsA vertsB vertsA [0 ..< length vertsA] None = Some acc1" and
    c2: "checkAxes_loop vertsA vertsB vertsB [0 ..< length vertsB] acc1 = Some None"
    by (auto simp: polygonPolygonSAT_def checkAxes_def split: option.splits)
  from checkAxes_loop_origin [OF c2] have "acc1 = None" and b: "edgeAxes vertsB = []"
    by (simp_all add: edgeAxes_def)
  with checkAxes_loop_origin [OF c1] have "edgeAxes vertsA = []"
    by (simp add: edgeAxes_def)
  with b show "edgeAxes vertsA = []" and "edgeAxes vertsB = []" by simp_all
qed

lemma hypot_unit_sq: "hypot a b = 1 \<Longrightarrow> a * a + b * b = 1"
proof -
  assume "hypot a b = 1"
  then have "sqrt (a * a + b * b) = 1" by (simp add: hypot_def)
  then show ?thesis by (simp add: real_sqrt_eq_1_iff)
qed

lemma orientNormal_unit:
  "hypot (fst n) (snd n) = 1 \<Longrightarrow> hypot (fst (orientNormal a b n)) (snd (orientNormal a b n)) = 1"
  by (simp add: orientNormal_def Let_def)

lemma addSpin_fields [simp]:
  "velocity (addSpin d a) = velocity a" "posX (addSpin d a) = posX a" "posY (addSpin d a) = posY a"
  "isDragged (addSpin d a) = isDragged a" "colorIndex (addSpin d a) = colorIndex a"
  "localVerts (addSpin d a) = localVerts a" "invMass (addSpin d a) = invMass a"
  "body_id (addSpin d a) = body_id a"
  by (simp_all add: addSpin_def Let_def)

lemma addSpin_clamped: "\<bar>angularVelocity (addSpin d a)\<bar> \<le> 4"
  by (cases "shapeType a") (auto simp: addSpin_def Let_def)

lemma transferColor_fields [simp]:
  "velocity (fst (transferColorOnCollision a b)) = velocity a"
  "velocity (snd (transferColorOnCollision a b)) = velocity b"
  "angularVelocity (fst (transferColorOnCollision a b)) = angularVelocity a"
  "angularVelocity (snd (transferColorOnCollision a b)) = angularVelocity b"
  "posX (fst (transferColorOnCollision a b)) = posX a"
  "posX (snd (transferColorOnCollision a b)) = posX b"
  "posY (fst (transferColorOnCollision a b)) = posY a"
  "posY (snd (transferColorOnCollision a b)) = posY b"
  "isDragged (fst (transferColorOnCollision a b)) = isDragged a"
  "isDragged (snd (transferColorOnCollision a b)) = isDragged b"
  "localVerts (fst (transferColorOnCollision a b)) = localVerts a"
  "localVerts (snd (transferColorOnCollision a b)) = localVerts b"
  by (simp_all add: transferColorOnCollision_def)

lemma effInvMass_update [simp]:
  "effInvMass (a\<lparr>posX := x\<rparr>) = effInvMass a" "effInvMass (a\<lparr>posY := y\<rparr>) = effInvMass a"
  "effInvMass (a\<lparr>velocity := v\<rparr>) = effInvMass a"
  by (simp_all add: effInvMass_def)

text \<open>The pair step when the test reports a hit and some inverse mass counts.\<close>

lemma resolvePair_hit:
  assumes sat: "polygonPolygonSAT (getWorldVertices a) (getWorldVertices b) = SatHit normal0 depth"
    and sum: "effInvMass a + effInvMass b \<noteq> 0"
  defines "n \<equiv> orientNormal a b normal0"
  defines "iA \<equiv> effInvMass a"
  defines "iB \<equiv> effInvMass b"
  defines "van \<equiv> velAlongNormal a b n"
  defines "a1 \<equiv> a\<lparr>posX := posX a - fst n * (depth * (iA / (iA + iB))),
                     posY := posY a - snd n * (depth * (iA / (iA + iB)))\<rparr>"
  defines "b1 \<equiv> b\<lparr>posX := posX b + fst n * (depth * (iB / (iA + iB))),
                     posY := posY b + snd n * (depth * (iB / (iA + iB)))\<rparr>"
  defines "jn \<equiv> - (1 + 1) * van / (iA + iB)"
  defines "a2 \<equiv> a1\<lparr>velocity := (fst (velocity a) - jn * fst n * iA, snd (velocity a) - jn * snd n * iA)\<rparr>"
  defines "b2 \<equiv> b1\<lparr>velocity := (fst (velocity b) + jn * fst n * iB, snd (velocity b) + jn * snd n * iB)\<rparr>"
  defines "vt \<equiv> (fst (velocity b) - fst (velocity a)) * (- snd n) + (snd (velocity b) - snd (velocity a)) * fst n"
  defines "a3 \<equiv> addSpin (- (vt * (18 / 100 * speedScaleOr1 a))) a2"
  defines "b3 \<equiv> addSpin (vt * (18 / 100 * speedScaleOr1 b)) b2"
  shows "resolvePair ct a b =
           Some (if van < 0 then (if ct then transferColorOnCollision a3 b3 else (a3, b3)) else (a1, b1))"
  using sum
  unfolding resolvePair_def sat n_def iA_def iB_def van_def a1_def b1_def jn_def a2_def b2_def vt_def
    a3_def b3_def velAlongNormal_def
  by (simp add: Let_def speedScaleOr1_def)


lemma colour_step_fields:
  "\<exists>a' b'. (if ct then transferColorOnCollision x y else (x, y)) = (a', b') \<and>
     velocity a' = velocity x \<and> velocity b' = velocity y \<and>
     angularVelocity a' = angularVelocity x \<and> angularVelocity b' = angularVelocity y \<and>
     posX a' = posX x \<and> posY a' = posY x \<and> posX b' = posX y \<and> posY b' = posY y \<and>
     isDragged a' = isDragged x \<and> isDragged b' = isDragged y \<and>
     localVerts a' = localVerts x \<and> localVerts b' = localVerts y \<and>
     ((colorIndex a', colorIndex b') = (colorIndex x, colorIndex y) \<or>
      (colorIndex a', colorIndex b') = (colorIndex y, colorIndex x))"
  by (simp add: transferColorOnCollision_def)

lemma resolvePair_miss:
  "polygonPolygonSAT (getWorldVertices a) (getWorldVertices b) = SatNull \<Longrightarrow>
   resolvePair ct a b = Some (a, b)"
  by (simp add: resolvePair_def)

lemma resolvePair_massless:
  "polygonPolygonSAT (getWorldVertices a) (getWorldVertices b) = SatHit normal0 depth \<Longrightarrow>
   effInvMass a + effInvMass b = 0 \<Longrightarrow> resolvePair ct a b = Some (a, b)"
  by (simp add: resolvePair_def Let_def)

lemma resolvePair_None_iff:
  "resolvePair ct a b = None \<longleftrightarrow>
   polygonPolygonSAT (getWorldVertices a) (getWorldVertices b) = SatUnbounded"
  by (cases "polygonPolygonSAT (getWorldVertices a) (getWorldVertices b)")
     (simp_all add: resolvePair_def Let_def)

lemma impulse_algebra:
  fixes nx ny j s iA iB van bx ax bY aY :: real
  assumes "nx * nx + ny * ny = 1" and "j * s = - 2 * van" and "s = iA + iB"
    and "van = (bx - ax) * nx + (bY - aY) * ny"
  shows "(bx + j * nx * iB - (ax - j * nx * iA)) * nx + (bY + j * ny * iB - (aY - j * ny * iA)) * ny = - van"
proof -
  have "(bx + j * nx * iB - (ax - j * nx * iA)) * nx + (bY + j * ny * iB - (aY - j * ny * iA)) * ny =
        (bx - ax) * nx + (bY - aY) * ny + (j * (iA + iB)) * (nx * nx + ny * ny)"
    by (simp add: algebra_simps)
  also have "\<dots> = van + j * s" using assms by simp
  finally show ?thesis using assms(2) by simp
qed

text \<open>
  Claim C6.  Two bodies that are not dragged, for which the test reports a hit and whose
  inverse masses do not add up to zero: if the relative velocity along the normal (turned
  from \<open>a\<close> to \<open>b\<close>) is negative, the pair step changes the two velocities by the
  impulse \<open>-(1 + 1) * van / (invMass a + invMass b)\<close> along the normal, weighted by each
  body's inverse mass, after which the relative velocity along the normal is the
  negation of what it was, and both angular velocities lie within \<open>[-4, 4]\<close>.  If it is
  not negative, velocities and angular velocities stay as they were.
\<close>

theorem resolvePair_elastic_impulse:
  assumes sat: "polygonPolygonSAT (getWorldVertices a) (getWorldVertices b) = SatHit normal0 depth"
    and free: "\<not> isDragged a" "\<not> isDragged b"
    and sum: "invMass a + invMass b \<noteq> 0"
  shows "\<exists>a' b'. resolvePair ct a b = Some (a', b') \<and>
           (velAlongNormal a b (orientNormal a b normal0) < 0 \<longrightarrow>
              velAlongNormal a' b' (orientNormal a b normal0) =
                - velAlongNormal a b (orientNormal a b normal0) \<and>
              velocity a' =
                (fst (velocity a) - (- 2 * velAlongNormal a b (orientNormal a b normal0) /
                    (invMass a + invMass b)) * fst (orientNormal a b normal0) * invMass a,
                 snd (velocity a) - (- 2 * velAlongNormal a b (orientNormal a b normal0) /
                    (invMass a + invMass b)) * snd (orientNormal a b normal0) * invMass a) \<and>
              velocity b' =
                (fst (velocity b) + (- 2 * velAlongNormal a b (orientNormal a b normal0) /
                    (invMass a + invMass b)) * fst (orientNormal a b normal0) * invMass b,
                 snd (velocity b) + (- 2 * velAlongNormal a b (orientNormal a b normal0) /
                    (invMass a + invMass b)) * snd (orientNormal a b normal0) * invMass b) \<and>
              \<bar>angularVelocity a'\<bar> \<le> 4 \<and> \<bar>angularVelocity b'\<bar> \<le> 4) \<and>
           (\<not> velAlongNormal a b (orientNormal a b normal0) < 0 \<longrightarrow>
              velocity a' = velocity a \<and> velocity b' = velocity b \<and>
              angularVelocity a' = angularVelocity a \<and> angularVelocity b' = angularVelocity b)"
proof -
  let ?n = "orientNormal a b normal0"
  let ?van = "velAlongNormal a b ?n"
  let ?s = "invMass a + invMass b"
  let ?j = "- 2 * ?van / ?s"
  let ?vt = "(fst (velocity b) - fst (velocity a)) * (- snd ?n) + (snd (velocity b) - snd (velocity a)) * fst ?n"
  let ?A3 = "addSpin (- (?vt * (18 / 100 * speedScaleOr1 a)))
      (a\<lparr>posX := posX a - fst ?n * (depth * (invMass a / ?s)),
         posY := posY a - snd ?n * (depth * (invMass a / ?s)),
         velocity := (fst (velocity a) - - (1 + 1) * ?van / ?s * fst ?n * invMass a,
                      snd (velocity a) - - (1 + 1) * ?van / ?s * snd ?n * invMass a)\<rparr>)"
  let ?B3 = "addSpin (?vt * (18 / 100 * speedScaleOr1 b))
      (b\<lparr>posX := posX b + fst ?n * (depth * (invMass b / ?s)),
         posY := posY b + snd ?n * (depth * (invMass b / ?s)),
         velocity := (fst (velocity b) + - (1 + 1) * ?van / ?s * fst ?n * invMass b,
                      snd (velocity b) + - (1 + 1) * ?van / ?s * snd ?n * invMass b)\<rparr>)"
  have eff: "effInvMass a = invMass a" "effInvMass b = invMass b"
    using free by (simp_all add: effInvMass_def)
  have sum': "effInvMass a + effInvMass b \<noteq> 0"
    using sum by (simp add: eff)
  note hit = resolvePair_hit [OF sat sum', of ct, unfolded eff]
  have unit: "fst ?n * fst ?n + snd ?n * snd ?n = 1"
    by (rule hypot_unit_sq [OF orientNormal_unit [OF polygonPolygonSAT_SatHit_unit(1) [OF sat]]])
  show ?thesis
  proof (cases "?van < 0")
    case False
    then show ?thesis
      by (simp add: hit)
  next
    case True
    have js: "?j * ?s = - 2 * ?van" using sum by simp
    have flip: "(fst (velocity b) + ?j * fst ?n * invMass b - (fst (velocity a) - ?j * fst ?n * invMass a)) * fst ?n +
          (snd (velocity b) + ?j * snd ?n * invMass b - (snd (velocity a) - ?j * snd ?n * invMass a)) * snd ?n =
          - ?van"
      by (rule impulse_algebra [OF unit js refl velAlongNormal_def])
    from colour_step_fields [of ct "?A3" "?B3"] obtain a' b' where
      ab: "(if ct then transferColorOnCollision ?A3 ?B3 else (?A3, ?B3)) = (a', b')" and
      va: "velocity a' = velocity ?A3" and vb: "velocity b' = velocity ?B3" and
      wa: "angularVelocity a' = angularVelocity ?A3" and wb: "angularVelocity b' = angularVelocity ?B3"
      by blast
    have res: "resolvePair ct a b = Some (a', b')"
      using True ab by (simp add: hit)
    have "velAlongNormal a' b' ?n = - ?van"
      using flip by (simp add: velAlongNormal_def va vb)
    moreover have "velocity a' = (fst (velocity a) - ?j * fst ?n * invMass a,
                                 snd (velocity a) - ?j * snd ?n * invMass a)"
      by (simp add: va)
    moreover have "velocity b' = (fst (velocity b) + ?j * fst ?n * invMass b,
                                 snd (velocity b) + ?j * snd ?n * invMass b)"
      by (simp add: vb)
    moreover have "\<bar>angularVelocity a'\<bar> \<le> 4" "\<bar>angularVelocity b'\<bar> \<le> 4"
      by (simp_all add: wa wb addSpin_clamped)
    ultimately show ?thesis
      using res True by blast
  qed
qed

lemma hypot_axis [simp]: "hypot 0 b = \<bar>b\<bar>" "hypot a 0 = \<bar>a\<bar>"
  by (simp_all add: hypot_def)

lemma getWorldVertices_exampleRect:
  "getWorldVertices ((exampleRect x y c)\<lparr>velocity := v\<rparr>) =
     [(x - 3 / 10, y - 4 / 10), (x + 3 / 10, y - 4 / 10), (x + 3 / 10, y + 4 / 10), (x - 3 / 10, y + 4 / 10)]"
  "getWorldVertices (exampleRect x y c) =
     [(x - 3 / 10, y - 4 / 10), (x + 3 / 10, y - 4 / 10), (x + 3 / 10, y + 4 / 10), (x - 3 / 10, y + 4 / 10)]"
  by (simp_all add: getWorldVertices_def exampleRect_def bodyLiteral_def exampleRectVerts_def
      transformVerts_def)

subsection \<open>Rules that evaluate the test on given vertex lists\<close>

lemma projectOntoAxis_Cons:
  "projectOntoAxis (v # vs) axis = projectOntoAxis_loop (Some (dot v axis, dot v axis)) vs axis"
  by (simp add: projectOntoAxis_def dot_def Let_def)

lemma projectOntoAxis_loop_Cons:
  "projectOntoAxis_loop (Some (mn, mx)) (v # vs) axis =
     projectOntoAxis_loop (Some (min mn (dot v axis), max mx (dot v axis))) vs axis"
  by (simp add: dot_def Let_def min_def max_def)

lemma edgeNormal_eval:
  "edgeNormal verts i =
     (if hypot (snd (verts ! ((i + 1) mod length verts)) - snd (verts ! i))
               (fst (verts ! ((i + 1) mod length verts)) - fst (verts ! i)) = 0
      then None
      else Some (- (snd (verts ! ((i + 1) mod length verts)) - snd (verts ! i)) /
                   hypot (snd (verts ! ((i + 1) mod length verts)) - snd (verts ! i))
                         (fst (verts ! ((i + 1) mod length verts)) - fst (verts ! i)),
                 (fst (verts ! ((i + 1) mod length verts)) - fst (verts ! i)) /
                   hypot (snd (verts ! ((i + 1) mod length verts)) - snd (verts ! i))
                         (fst (verts ! ((i + 1) mod length verts)) - fst (verts ! i))))"
  by (simp add: edgeNormal_def hypot_def Let_def)

lemmas sat_eval =
  polygonPolygonSAT_def checkAxes_def checkAxes_loop_Cons edgeNormal_eval
  projectOntoAxis_Cons projectOntoAxis_loop_Cons
  overlapIntervals_def updateBest_def dot_def upt_rec

lemma example_sat:
  "polygonPolygonSAT (getWorldVertices ((exampleRect 0 0 2)\<lparr>velocity := (1, 0)\<rparr>))
     (getWorldVertices (exampleRect (1 / 2) 0 7)) = SatHit (- 1, 0) (1 / 10)"
  by (simp add: getWorldVertices_exampleRect sat_eval del: checkAxes_loop.simps(2) projectOntoAxis_loop.simps(2))

theorem resolvePair_elastic_impulse_witness:
  "polygonPolygonSAT (getWorldVertices ((exampleRect 0 0 2)\<lparr>velocity := (1, 0)\<rparr>))
     (getWorldVertices (exampleRect (1 / 2) 0 7)) = SatHit (- 1, 0) (1 / 10) \<and>
   velAlongNormal ((exampleRect 0 0 2)\<lparr>velocity := (1, 0)\<rparr>) (exampleRect (1 / 2) 0 7) (1, 0) = - 1 \<and>
   (\<exists>a' b'. resolvePair True ((exampleRect 0 0 2)\<lparr>velocity := (1, 0)\<rparr>) (exampleRect (1 / 2) 0 7) = Some (a', b') \<and>
      velAlongNormal a' b' (1, 0) = 1 \<and> velocity a' = (0, 0) \<and> velocity b' = (1, 0) \<and>
      \<bar>angularVelocity a'\<bar> \<le> 4 \<and> \<bar>angularVelocity b'\<bar> \<le> 4)"
proof -
  let ?a = "(exampleRect 0 0 2)\<lparr>velocity := (1, 0)\<rparr>"
  let ?b = "exampleRect (1 / 2) 0 7"
  have free: "\<not> isDragged ?a" "\<not> isDragged ?b"
    by (simp_all add: exampleRect_def bodyLiteral_def)
  have sum: "invMass ?a + invMass ?b \<noteq> 0"
    by (simp add: exampleRect_def bodyLiteral_def)
  have n: "orientNormal ?a ?b (- 1, 0) = (1, 0)"
    by (simp add: orientNormal_def exampleRect_def bodyLiteral_def)
  have van: "velAlongNormal ?a ?b (1, 0) = - 1"
    by (simp add: velAlongNormal_def exampleRect_def bodyLiteral_def)
  have inv: "invMass ?a = 4" "invMass ?b = 4" "velocity ?a = (1, 0)" "velocity ?b = (0, 0)"
    by (simp_all add: exampleRect_def bodyLiteral_def)
  from resolvePair_elastic_impulse [OF example_sat free sum, of True, unfolded n van inv]
  show ?thesis
    using example_sat van by simp
qed

lemma exampleWorld_single:
  "bodies (exampleWorld [b]) = [b\<lparr>body_id := 1, isMagnetAnchored := False\<rparr>]"
  "physicsEnabled (exampleWorld [b])"
  "worldBoundsX (exampleWorld [b]) = 4" "worldBoundsY (exampleWorld [b]) = 22 / 10"
  by (simp_all add: exampleWorld_def setPhysicsEnabled_def addBodyEntry_def registerBody_def
      initialWorld_def)

theorem single_body_stays_inside_and_slows_witness:
  "\<exists>w' b'. updatePhysics (1 / 100) (exampleWorld [(exampleRect 0 0 2)\<lparr>velocity := (1, 0)\<rparr>]) = Some w' \<and>
      bodies w' = [b'] \<and> \<bar>posX b'\<bar> \<le> 4 - 1 / 2 \<and> \<bar>posY b'\<bar> \<le> 22 / 10 - 1 / 2 \<and>
      hypot (fst (velocity b')) (snd (velocity b')) < 1"
proof -
  let ?b = "(exampleRect 0 0 2)\<lparr>velocity := (1, 0)\<rparr>"
  let ?b1 = "?b\<lparr>body_id := 1, isMagnetAnchored := False\<rparr>"
  let ?w = "exampleWorld [?b]"
  have run: "physicsEnabled ?w" and bs: "bodies ?w = [?b1]"
    by (simp_all add: exampleWorld_single)
  have free: "\<not> isDragged ?b1"
    by (simp add: exampleRect_def bodyLiteral_def)
  have fits: "boundingRadius ?b1 \<le> worldBoundsX ?w" "boundingRadius ?b1 \<le> worldBoundsY ?w"
    by (simp_all add: exampleWorld_single exampleRect_def bodyLiteral_def)
  have dt: "(0::real) \<le> 1 / 100" by simp
  have v: "hypot (fst (velocity ?b1)) (snd (velocity ?b1)) = 1"
    by (simp add: exampleRect_def bodyLiteral_def)
  have r: "boundingRadius ?b1 = 1 / 2"
    by (simp add: exampleRect_def bodyLiteral_def)
  from single_body_stays_inside_and_slows [OF run bs free fits dt]
  show ?thesis
    unfolding v r exampleWorld_single by fastforce
qed

section \<open>The pair loop: what it preserves\<close>

lemma pairFrame_refl [simp]: "pairFrame a a"
  by (simp add: pairFrame_def)

lemma pairFrame_trans: "pairFrame a b \<Longrightarrow> pairFrame b c \<Longrightarrow> pairFrame a c"
  by (auto simp: pairFrame_def)

lemma effInvMass_dragged [simp]: "isDragged a \<Longrightarrow> effInvMass a = 0"
  by (simp add: effInvMass_def)

lemma resolvePair_frame:
  assumes "resolvePair ct a b = Some (a', b')"
  shows "pairFrame a a'" and "pairFrame b b'"
    and "(colorIndex a', colorIndex b') = (colorIndex a, colorIndex b) \<or>
         (colorIndex a', colorIndex b') = (colorIndex b, colorIndex a)"
proof -
  have "pairFrame a a' \<and> pairFrame b b' \<and>
        ((colorIndex a', colorIndex b') = (colorIndex a, colorIndex b) \<or>
         (colorIndex a', colorIndex b') = (colorIndex b, colorIndex a))"
  proof (cases "polygonPolygonSAT (getWorldVertices a) (getWorldVertices b)")
    case SatNull
    with assms show ?thesis by (simp add: resolvePair_miss)
  next
    case SatUnbounded
    with assms resolvePair_None_iff [of ct a b] show ?thesis by simp
  next
    case (SatHit normal0 depth)
    show ?thesis
    proof (cases "effInvMass a + effInvMass b = 0")
      case True
      with assms SatHit show ?thesis by (simp add: resolvePair_massless)
    next
      case False
      note hit = resolvePair_hit [OF SatHit False, of ct]
      show ?thesis
      proof (cases "velAlongNormal a b (orientNormal a b normal0) < 0")
        case False
        with assms hit show ?thesis
          by (auto simp: pairFrame_def)
      next
        case True
        from assms hit True obtain x y where
          xy: "(if ct then transferColorOnCollision x y else (x, y)) = (a', b')" and
          x: "pairFrame a x" "colorIndex x = colorIndex a" and
          y: "pairFrame b y" "colorIndex y = colorIndex b"
          by (simp add: pairFrame_def)
        from colour_step_fields [of ct x y] xy x y show ?thesis
          by (auto simp: pairFrame_def)
      qed
    qed
  qed
  then show "pairFrame a a'" and "pairFrame b b'"
    and "(colorIndex a', colorIndex b') = (colorIndex a, colorIndex b) \<or>
         (colorIndex a', colorIndex b') = (colorIndex b, colorIndex a)"
    by simp_all
qed

lemma allPairs_bounds: "(i, j) \<in> set (allPairs n) \<Longrightarrow> i < j \<and> j < n"
  by (auto simp: allPairs_def)

lemma list_all2_update2:
  assumes "pairFrame (bs ! i) a'" and "pairFrame (bs ! j) b'"
  shows "list_all2 pairFrame bs (bs[i := a', j := b'])"
proof -
  have r: "list_all2 pairFrame bs bs"
    by (simp add: list_all2_same)
  have "list_all2 pairFrame (bs[i := bs ! i]) (bs[i := a'])"
    by (rule list_all2_update_cong [OF r assms(1)])
  then have s1: "list_all2 pairFrame bs (bs[i := a'])" by simp
  have "list_all2 pairFrame (bs[j := bs ! j]) (bs[i := a', j := b'])"
    by (rule list_all2_update_cong [OF s1 assms(2)])
  then show ?thesis by simp
qed

lemma mset_colour_update2:
  assumes "i < length bs" and "j < length bs" and "i \<noteq> j"
    and "(colorIndex a', colorIndex b') = (colorIndex (bs ! i), colorIndex (bs ! j)) \<or>
         (colorIndex a', colorIndex b') = (colorIndex (bs ! j), colorIndex (bs ! i))"
  shows "mset (map colorIndex (bs[i := a', j := b'])) = mset (map colorIndex bs)"
proof -
  let ?cs = "map colorIndex bs"
  have m: "map colorIndex (bs[i := a', j := b']) = ?cs[i := colorIndex a', j := colorIndex b']"
    by (simp add: map_update)
  from assms(4) show ?thesis
  proof
    assume "(colorIndex a', colorIndex b') = (colorIndex (bs ! i), colorIndex (bs ! j))"
    then have "?cs[i := colorIndex a', j := colorIndex b'] = ?cs[i := ?cs ! i, j := ?cs ! j]"
      using assms(1,2) by simp
    also have "\<dots> = ?cs" by simp
    finally show ?thesis by (simp add: m)
  next
    assume "(colorIndex a', colorIndex b') = (colorIndex (bs ! j), colorIndex (bs ! i))"
    then have "?cs[i := colorIndex a', j := colorIndex b'] = ?cs[i := ?cs ! j, j := ?cs ! i]"
      using assms(1,2) by simp
    moreover have "mset (?cs[i := ?cs ! j, j := ?cs ! i]) = mset ?cs"
      by (rule mset_swap) (simp_all add: assms(1,2))
    ultimately show ?thesis by (simp add: m)
  qed
qed

lemma pairLoop_preserves:
  assumes "pairLoop ct ps bs = Some bs'"
    and "\<forall>(i, j) \<in> set ps. i < j \<and> j < length bs"
  shows "list_all2 pairFrame bs bs' \<and> mset (map colorIndex bs') = mset (map colorIndex bs)"
  using assms
proof (induction ps arbitrary: bs)
  case Nil
  then show ?case by (simp add: list_all2_same)
next
  case (Cons p ps)
  obtain i j where p: "p = (i, j)" by (cases p)
  from Cons.prems(2) p have ij: "i < j" "j < length bs" by auto
  from Cons.prems(1) p obtain a' b' where
    rp: "resolvePair ct (bs ! i) (bs ! j) = Some (a', b')" and
    rest: "pairLoop ct ps (bs[i := a', j := b']) = Some bs'"
    by (auto split: option.splits)
  let ?bs1 = "bs[i := a', j := b']"
  have len: "length ?bs1 = length bs" by simp
  from Cons.prems(2) have "\<forall>(i, j) \<in> set ps. i < j \<and> j < length ?bs1"
    by auto
  from Cons.IH [OF rest this]
  have ih: "list_all2 pairFrame ?bs1 bs'" "mset (map colorIndex bs') = mset (map colorIndex ?bs1)"
    by simp_all
  have f1: "list_all2 pairFrame bs ?bs1"
    by (rule list_all2_update2 [OF resolvePair_frame(1) [OF rp] resolvePair_frame(2) [OF rp]])
  have c1: "mset (map colorIndex ?bs1) = mset (map colorIndex bs)"
    using ij by (intro mset_colour_update2 resolvePair_frame(3) [OF rp]) simp_all
  have "list_all2 pairFrame bs bs'"
    using f1 ih(1) by (rule list_all2_trans [rotated]) (rule pairFrame_trans)
  with ih(2) c1 show ?case by simp
qed

section \<open>The step returns for bodies that have an edge\<close>

lemma rotation_square:
  fixes ex ey s c :: real
  shows "(ex * s + ey * c) * (ex * s + ey * c) + (ex * c - ey * s) * (ex * c - ey * s) =
         (ey * ey + ex * ex) * (s * s + c * c)"
  by (simp add: algebra_simps)

lemma edgeNormal_transformVerts:
  assumes "i < length verts"
  shows "edgeNormal (transformVerts verts x y r) i = None \<longleftrightarrow> edgeNormal verts i = None"
proof -
  let ?j = "(i + 1) mod length verts"
  have j: "?j < length verts"
    by (rule mod_less_divisor) (use assms in auto)
  define ex where "ex = fst (verts ! ?j) - fst (verts ! i)"
  define ey where "ey = snd (verts ! ?j) - snd (verts ! i)"
  let ?ex' = "ex * cos r - ey * sin r"
  let ?ey' = "ex * sin r + ey * cos r"
  have sq: "?ey' * ?ey' + ?ex' * ?ex' = ey * ey + ex * ex"
  proof -
    have t: "sin r * sin r + cos r * cos r = 1"
      by (simp flip: power2_eq_square)
    have "?ey' * ?ey' + ?ex' * ?ex' = (ey * ey + ex * ex) * (sin r * sin r + cos r * cos r)"
      by (rule rotation_square)
    then show ?thesis by (simp only: t mult_1_right)
  qed
  have l: "edgeNormal verts i = None \<longleftrightarrow> ey * ey + ex * ex = 0"
    by (simp add: edgeNormal_def Let_def ex_def ey_def)
  have fx: "fst (transformVerts verts x y r ! ?j) - fst (transformVerts verts x y r ! i) = ?ex'"
    using assms j by (simp add: transformVerts_def ex_def ey_def algebra_simps)
  have fy: "snd (transformVerts verts x y r ! ?j) - snd (transformVerts verts x y r ! i) = ?ey'"
    using assms j by (simp add: transformVerts_def ex_def ey_def algebra_simps)
  have len: "length (transformVerts verts x y r) = length verts"
    by (simp add: transformVerts_def)
  have "edgeNormal (transformVerts verts x y r) i = None \<longleftrightarrow> ?ey' * ?ey' + ?ex' * ?ex' = 0"
    unfolding edgeNormal_def Let_def len fx fy by simp
  with sq l show ?thesis by simp
qed

lemma edgeAxes_Nil_iff: "edgeAxes verts = [] \<longleftrightarrow> (\<forall>i < length verts. edgeNormal verts i = None)"
proof -
  have "List.map_filter f xs = [] \<longleftrightarrow> (\<forall>x \<in> set xs. f x = None)" for f :: "nat \<Rightarrow> vec option" and xs
    by (induction xs) (auto split: option.splits)
  then show ?thesis by (auto simp: edgeAxes_def)
qed

lemma edgeAxes_transformVerts:
  "edgeAxes (transformVerts verts x y r) = [] \<longleftrightarrow> edgeAxes verts = []"
proof -
  have len: "length (transformVerts verts x y r) = length verts"
    by (simp add: transformVerts_def)
  show ?thesis
    by (simp add: edgeAxes_Nil_iff len edgeNormal_transformVerts)
qed

lemma resolvePair_returns:
  assumes "edgeAxes (localVerts a) \<noteq> []"
  shows "resolvePair ct a b \<noteq> None"
proof
  assume "resolvePair ct a b = None"
  then have "polygonPolygonSAT (getWorldVertices a) (getWorldVertices b) = SatUnbounded"
    by (simp add: resolvePair_None_iff)
  then have "edgeAxes (getWorldVertices a) = []"
    by (rule polygonPolygonSAT_SatUnbounded)
  with assms show False
    by (simp add: getWorldVertices_def edgeAxes_transformVerts)
qed

lemma pairLoop_returns:
  assumes "\<forall>b \<in> set bs. edgeAxes (localVerts b) \<noteq> []"
    and "\<forall>(i, j) \<in> set ps. i < j \<and> j < length bs"
  shows "\<exists>bs'. pairLoop ct ps bs = Some bs'"
  using assms
proof (induction ps arbitrary: bs)
  case Nil
  show ?case by simp
next
  case (Cons p ps)
  obtain i j where p: "p = (i, j)" by (cases p)
  from Cons.prems(2) p have ij: "i < j" "j < length bs" by auto
  then have "bs ! i \<in> set bs" by simp
  with Cons.prems(1) have "edgeAxes (localVerts (bs ! i)) \<noteq> []" by blast
  from resolvePair_returns [OF this, of ct "bs ! j"] obtain a' b' where
    rp: "resolvePair ct (bs ! i) (bs ! j) = Some (a', b')"
    by auto
  let ?bs1 = "bs[i := a', j := b']"
  from list_all2_update2 [OF resolvePair_frame(1) [OF rp] resolvePair_frame(2) [OF rp]]
  have fr: "list_all2 pairFrame bs ?bs1" .
  have wf1: "\<forall>b \<in> set ?bs1. edgeAxes (localVerts b) \<noteq> []"
  proof
    fix b assume "b \<in> set ?bs1"
    then obtain k where k: "k < length ?bs1" "b = ?bs1 ! k"
      by (auto simp: in_set_conv_nth)
    with fr have "pairFrame (bs ! k) b"
      by (simp add: list_all2_conv_all_nth)
    moreover have "bs ! k \<in> set bs" using k by simp
    ultimately show "edgeAxes (localVerts b) \<noteq> []"
      using Cons.prems(1) by (auto simp: pairFrame_def)
  qed
  from Cons.prems(2) have "\<forall>(i, j) \<in> set ps. i < j \<and> j < length ?bs1"
    by auto
  from Cons.IH [OF wf1 this] show ?case
    by (simp add: p rp)
qed

lemma moveBody_localVerts [simp]: "localVerts (moveBody dt bndX bndY b) = localVerts b"
  by (simp add: moveBody_def Let_def)

lemma updatePhysics_returns:
  assumes "\<forall>b \<in> set (bodies w). edgeAxes (localVerts b) \<noteq> []"
  shows "\<exists>w'. updatePhysics dt w = Some w'"
proof (cases "physicsEnabled w")
  case False
  then show ?thesis by (simp add: updatePhysics_def)
next
  case True
  let ?moved = "map (moveBody dt (worldBoundsX w) (worldBoundsY w)) (bodies w)"
  have wf: "\<forall>b \<in> set ?moved. edgeAxes (localVerts b) \<noteq> []"
    using assms by auto
  have "\<forall>(i, j) \<in> set (allPairs (length ?moved)). i < j \<and> j < length ?moved"
    using allPairs_bounds by blast
  from pairLoop_returns [OF wf this] obtain bs' where
    "pairLoop (colorTransferEnabled w) (allPairs (length ?moved)) ?moved = Some bs'"
    by blast
  with True show ?thesis
    by (simp add: updatePhysics_def Let_def)
qed

text \<open>The step as three phases, when the world runs.\<close>

lemma updatePhysics_running:
  assumes "physicsEnabled w" and "updatePhysics dt w = Some w'"
  shows "\<exists>bs'. pairLoop (colorTransferEnabled w)
                  (allPairs (length (bodies w)))
                  (map (moveBody dt (worldBoundsX w) (worldBoundsY w)) (bodies w)) = Some bs' \<and>
               bodies w' = bs' \<and> physicsEnabled w' = anyMoving bs' \<and>
               colorTransferEnabled w' = colorTransferEnabled w \<and>
               worldBoundsX w' = worldBoundsX w \<and> worldBoundsY w' = worldBoundsY w \<and>
               nextBodyId w' = nextBodyId w"
  using assms
  by (auto simp: updatePhysics_def Let_def setPhysicsEnabled_def split: option.splits if_splits)

lemma updatePhysics_paused: "\<not> physicsEnabled w \<Longrightarrow> updatePhysics dt w = Some w"
  by (simp add: updatePhysics_def)

text \<open>
  Claim C9.  A body that is dragged when a running step starts: whenever the step returns,
  the list of bodies has the length it had, and at the body's index there is a body that
  is still dragged, at exactly the same position, whose velocity is the old one times 0.9
  in each component (no \<open>v * dt\<close> is added to the position).  The step returns whenever
  each body has an edge of non-zero length.
\<close>

theorem dragged_body_is_frozen:
  assumes "physicsEnabled w" and "k < length (bodies w)" and "isDragged (bodies w ! k)"
  shows "(\<forall>w'. updatePhysics dt w = Some w' \<longrightarrow>
            length (bodies w') = length (bodies w) \<and>
            isDragged (bodies w' ! k) \<and>
            posX (bodies w' ! k) = posX (bodies w ! k) \<and>
            posY (bodies w' ! k) = posY (bodies w ! k) \<and>
            velocity (bodies w' ! k) =
              (fst (velocity (bodies w ! k)) * (9 / 10), snd (velocity (bodies w ! k)) * (9 / 10))) \<and>
         ((\<forall>b \<in> set (bodies w). edgeAxes (localVerts b) \<noteq> []) \<longrightarrow>
            (\<exists>w'. updatePhysics dt w = Some w'))"
proof (intro conjI allI impI)
  fix w'
  assume step: "updatePhysics dt w = Some w'"
  let ?moved = "map (moveBody dt (worldBoundsX w) (worldBoundsY w)) (bodies w)"
  from updatePhysics_running [OF assms(1) step] have
    loop: "pairLoop (colorTransferEnabled w) (allPairs (length ?moved)) ?moved = Some (bodies w')"
    by auto
  have "\<forall>(i, j) \<in> set (allPairs (length ?moved)). i < j \<and> j < length ?moved"
    using allPairs_bounds by blast
  from pairLoop_preserves [OF loop this] have fr: "list_all2 pairFrame ?moved (bodies w')"
    by simp
  then have len: "length (bodies w') = length (bodies w)"
    by (auto dest: list_all2_lengthD)
  from fr assms(2) have pf: "pairFrame (?moved ! k) (bodies w' ! k)"
    by (simp add: list_all2_conv_all_nth)
  let ?b = "bodies w ! k"
  have mv: "?moved ! k = ?b\<lparr>velocity := (fst (velocity ?b) * (9 / 10), snd (velocity ?b) * (9 / 10))\<rparr>"
    using assms(2,3) by (simp add: moveBody_def)
  show "length (bodies w') = length (bodies w)" by (rule len)
  show "isDragged (bodies w' ! k)"
    using pf assms(3) by (simp add: pairFrame_def mv)
  show "posX (bodies w' ! k) = posX ?b"
    using pf assms(3) by (simp add: pairFrame_def mv)
  show "posY (bodies w' ! k) = posY ?b"
    using pf assms(3) by (simp add: pairFrame_def mv)
  show "velocity (bodies w' ! k) = (fst (velocity ?b) * (9 / 10), snd (velocity ?b) * (9 / 10))"
    using pf assms(3) by (simp add: pairFrame_def mv)
next
  assume "\<forall>b \<in> set (bodies w). edgeAxes (localVerts b) \<noteq> []"
  then show "\<exists>w'. updatePhysics dt w = Some w'"
    by (rule updatePhysics_returns)
qed

section \<open>A slow collision, evaluated\<close>

lemma exampleWorld_two:
  "bodies (exampleWorld [a, b]) =
     [a\<lparr>body_id := Suc 0, isMagnetAnchored := False\<rparr>, b\<lparr>body_id := 2, isMagnetAnchored := False\<rparr>]"
  "physicsEnabled (exampleWorld [a, b])"
  "\<not> colorTransferEnabled (exampleWorld [a, b])"
  "worldBoundsX (exampleWorld [a, b]) = 4" "worldBoundsY (exampleWorld [a, b]) = 22 / 10"
  by (simp_all add: exampleWorld_def setPhysicsEnabled_def addBodyEntry_def registerBody_def
      initialWorld_def)

lemma linearDrag_lower: "986 / 1000 < linearDrag (1 / 100)"
proof -
  have "1 + - FLUID_LINEAR_VISCOSITY * (1 / 100) \<le> exp (- FLUID_LINEAR_VISCOSITY * (1 / 100))"
    by (rule exp_ge_add_one_self)
  then have "988 / 1000 \<le> exp (- FLUID_LINEAR_VISCOSITY * (1 / 100))"
    by (simp add: FLUID_LINEAR_VISCOSITY_def)
  then have "BASE_LINEAR_DAMPING * (988 / 1000) \<le>
      BASE_LINEAR_DAMPING * exp (- FLUID_LINEAR_VISCOSITY * (1 / 100))"
    by (intro mult_left_mono) (simp_all add: BASE_LINEAR_DAMPING_def)
  moreover have "986 / 1000 < BASE_LINEAR_DAMPING * (988 / 1000)"
    by (simp add: BASE_LINEAR_DAMPING_def)
  ultimately show ?thesis unfolding linearDrag_def by linarith
qed

lemma moveBody_slowBig:
  "moveBody (1 / 100) 4 (22 / 10) (slowBig\<lparr>body_id := Suc 0, isMagnetAnchored := False\<rparr>) =
     slowBig\<lparr>body_id := Suc 0, isMagnetAnchored := False,
             velocity := (- (19 / 1000 * linearDrag (1 / 100)), 0)\<rparr>"
proof -
  have K: "0 < linearDrag (1 / 100)" by (rule linearDrag_bounds(1)) simp
  show ?thesis
    using K
    by (simp add: moveBody_def Let_def slowBig_def exampleRect_def bodyLiteral_def)
qed

lemma moveBody_stillSmall:
  "moveBody (1 / 100) 4 (22 / 10) (stillSmall\<lparr>body_id := 2, isMagnetAnchored := False\<rparr>) =
     stillSmall\<lparr>body_id := 2, isMagnetAnchored := False\<rparr>"
  by (simp add: moveBody_def Let_def stillSmall_def exampleSmallRect_def bodyLiteral_def)

lemma slow_sat:
  "polygonPolygonSAT
     (getWorldVertices (slowBig\<lparr>body_id := Suc 0, isMagnetAnchored := False,
                               velocity := (- (19 / 1000 * linearDrag (1 / 100)), 0)\<rparr>))
     (getWorldVertices (stillSmall\<lparr>body_id := 2, isMagnetAnchored := False\<rparr>)) =
   SatHit (- 1, 0) (1 / 1000)"
  by (simp add: getWorldVertices_def transformVerts_def slowBig_def stillSmall_def exampleRect_def
      exampleSmallRect_def exampleRectVerts_def exampleSmallRectVerts_def bodyLiteral_def sat_eval
      del: checkAxes_loop.simps(2) projectOntoAxis_loop.simps(2))


lemma anyMoving_iff:
  "anyMoving bs \<longleftrightarrow>
     (\<exists>b \<in> set bs. isDragged b \<or> hypot (fst (velocity b)) (snd (velocity b)) > 2 / 100 \<or>
        \<bar>angularVelocity b\<bar> > 4 / 10)"
  by (induction bs) auto

lemma allPairs_2: "allPairs (Suc (Suc 0)) = [(0, Suc 0)]"
  by (simp add: allPairs_def upt_rec)

lemma updatePhysics_two:
  assumes "physicsEnabled w" and "bodies w = [a, b]"
    and "resolvePair (colorTransferEnabled w)
           (moveBody dt (worldBoundsX w) (worldBoundsY w) a)
           (moveBody dt (worldBoundsX w) (worldBoundsY w) b) = Some (a', b')"
  shows "updatePhysics dt w =
           Some (if anyMoving [a', b'] then w\<lparr>bodies := [a', b']\<rparr>
                 else setPhysicsEnabled False (w\<lparr>bodies := [a', b']\<rparr>))"
  using assms by (simp add: updatePhysics_def Let_def allPairs_2 del: anyMoving.simps)

lemma slow_resolve:
  "\<exists>a' b'. resolvePair ct
       (slowBig\<lparr>body_id := Suc 0, isMagnetAnchored := False,
                velocity := (- (19 / 1000 * linearDrag (1 / 100)), 0)\<rparr>)
       (stillSmall\<lparr>body_id := 2, isMagnetAnchored := False\<rparr>) = Some (a', b') \<and>
     velocity b' = (- (38 / 1010 * linearDrag (1 / 100)), 0) \<and> \<not> isDragged b' \<and>
     pairColours (a', b') = (if ct then (Some 7, Some 2) else (Some 2, Some 7))"
proof -
  let ?K = "linearDrag (1 / 100)"
  let ?A = "slowBig\<lparr>body_id := Suc 0, isMagnetAnchored := False, velocity := (- (19 / 1000 * ?K), 0)\<rparr>"
  let ?B = "stillSmall\<lparr>body_id := 2, isMagnetAnchored := False\<rparr>"
  have K: "0 < ?K" by (rule linearDrag_bounds(1)) simp
  have eA: "effInvMass ?A = 4" and eB: "effInvMass ?B = 400"
    by (simp_all add: effInvMass_def slowBig_def stillSmall_def exampleRect_def exampleSmallRect_def
        bodyLiteral_def)
  have sum: "effInvMass ?A + effInvMass ?B \<noteq> 0" unfolding eA eB by simp
  have n: "orientNormal ?A ?B (- 1, 0) = (- 1, 0)"
    by (simp add: orientNormal_def slowBig_def stillSmall_def exampleRect_def exampleSmallRect_def
        bodyLiteral_def)
  have van: "velAlongNormal ?A ?B (- 1, 0) = - (19 / 1000 * ?K)"
    by (simp add: velAlongNormal_def slowBig_def stillSmall_def exampleRect_def exampleSmallRect_def
        bodyLiteral_def)
  have neg: "- (19 / 1000 * ?K) < 0" using K by simp
  have vB: "velocity ?B = (0, 0)" and vA: "velocity ?A = (- (19 / 1000 * ?K), 0)"
    and cA: "colorIndex ?A = Some 2" and cB: "colorIndex ?B = Some 7"
    and dB: "\<not> isDragged ?B"
    by (simp_all add: slowBig_def stillSmall_def exampleRect_def exampleSmallRect_def bodyLiteral_def)
  note hit = resolvePair_hit [OF slow_sat sum, of ct, unfolded n van eA eB vA vB, simplified neg if_True]
  show ?thesis
    unfolding hit using cA cB dB
    by (cases ct) (simp_all add: pairColours_def transferColorOnCollision_def)
qed


lemma slowWorld_step:
  "\<exists>w'. updatePhysics (1 / 100) (slowWorld\<lparr>colorTransferEnabled := ct\<rparr>) = Some w' \<and>
     physicsEnabled w' \<and>
     map colorIndex (bodies w') = (if ct then [Some 7, Some 2] else [Some 2, Some 7])"
proof -
  let ?w = "slowWorld\<lparr>colorTransferEnabled := ct\<rparr>"
  let ?K = "linearDrag (1 / 100)"
  from slow_resolve [of ct] obtain a' b' where
    rp: "resolvePair ct
       (slowBig\<lparr>body_id := Suc 0, isMagnetAnchored := False, velocity := (- (19 / 1000 * ?K), 0)\<rparr>)
       (stillSmall\<lparr>body_id := 2, isMagnetAnchored := False\<rparr>) = Some (a', b')" and
    vb: "velocity b' = (- (38 / 1010 * ?K), 0)" and
    col: "pairColours (a', b') = (if ct then (Some 7, Some 2) else (Some 2, Some 7))"
    by blast
  have run: "physicsEnabled ?w"
    and bs: "bodies ?w = [slowBig\<lparr>body_id := Suc 0, isMagnetAnchored := False\<rparr>,
                          stillSmall\<lparr>body_id := 2, isMagnetAnchored := False\<rparr>]"
    and ct: "colorTransferEnabled ?w = ct"
    and bx: "worldBoundsX ?w = 4" and bY: "worldBoundsY ?w = 22 / 10"
    by (simp_all add: slowWorld_def exampleWorld_two)
  have rp': "resolvePair (colorTransferEnabled ?w)
       (moveBody (1 / 100) (worldBoundsX ?w) (worldBoundsY ?w)
          (slowBig\<lparr>body_id := Suc 0, isMagnetAnchored := False\<rparr>))
       (moveBody (1 / 100) (worldBoundsX ?w) (worldBoundsY ?w)
          (stillSmall\<lparr>body_id := 2, isMagnetAnchored := False\<rparr>)) = Some (a', b')"
    unfolding ct bx bY moveBody_slowBig moveBody_stillSmall by (rule rp)
  have "2 / 100 < 38 / 1010 * ?K"
    using linearDrag_lower by simp
  then have fast: "2 / 100 < hypot (fst (velocity b')) (snd (velocity b'))"
    by (simp add: vb)
  then have mv: "anyMoving [a', b']"
    by (simp add: anyMoving_iff)
  have "updatePhysics (1 / 100) ?w = Some (?w\<lparr>bodies := [a', b']\<rparr>)"
    using updatePhysics_two [OF run bs rp'] mv by (simp del: anyMoving.simps)
  moreover have "physicsEnabled (?w\<lparr>bodies := [a', b']\<rparr>)"
    using run by simp
  moreover have "map colorIndex (bodies (?w\<lparr>bodies := [a', b']\<rparr>)) =
      (if ct then [Some 7, Some 2] else [Some 2, Some 7])"
    using col by (simp add: pairColours_def split: if_splits)
  ultimately show ?thesis by blast
qed

lemma slowWorld_atRest: "physicsEnabled slowWorld" "allAtRest (bodies slowWorld)"
  by (simp_all add: slowWorld_def exampleWorld_two allAtRest_def slowBig_def stillSmall_def
      exampleRect_def exampleSmallRect_def bodyLiteral_def)

text \<open>
  Claim C5 does not hold as stated: in \<open>slowWorld\<close> the simulation runs, no body is
  dragged and every speed is below its epsilon, yet the step at the fixed time step 0.01
  ends with the simulation still running.  The large body bounces off the wall into the
  small one, and the elastic impulse gives the small body a speed above 0.02.
\<close>

theorem autopause_counterexample:
  "physicsEnabled slowWorld \<and> allAtRest (bodies slowWorld) \<and>
   map_option physicsEnabled (updatePhysics (1 / 100) slowWorld) = Some True"
proof -
  have "slowWorld\<lparr>colorTransferEnabled := False\<rparr> = slowWorld"
    by (simp add: slowWorld_def exampleWorld_two)
  with slowWorld_step [of False] obtain w' where
    "updatePhysics (1 / 100) slowWorld = Some w'" "physicsEnabled w'"
    by auto
  with slowWorld_atRest show ?thesis by simp
qed

section \<open>Auto-pause\<close>

lemma moveBody_at_rest:
  assumes "0 \<le> dt" and "\<not> isDragged b"
    and "hypot (fst (velocity b)) (snd (velocity b)) < 2 / 100"
    and "\<bar>angularVelocity b\<bar> < 4 / 10"
  shows "\<not> isDragged (moveBody dt bndX bndY b)"
    and "hypot (fst (velocity (moveBody dt bndX bndY b))) (snd (velocity (moveBody dt bndX bndY b))) < 2 / 100"
    and "\<bar>angularVelocity (moveBody dt bndX bndY b)\<bar> < 4 / 10"
proof -
  let ?s = "hypot (fst (velocity b)) (snd (velocity b))"
  show "\<not> isDragged (moveBody dt bndX bndY b)" using assms(2) by simp
  have "linearDrag dt * ?s \<le> 1 * ?s"
    using linearDrag_bounds [OF assms(1)] by (intro mult_right_mono) simp_all
  with assms(3) show "hypot (fst (velocity (moveBody dt bndX bndY b)))
      (snd (velocity (moveBody dt bndX bndY b))) < 2 / 100"
    by (simp add: moveBody_free_speed [OF assms(2)])
  have "\<bar>angularVelocity b * angDrag dt\<bar> = \<bar>angularVelocity b\<bar> * angDrag dt"
    using angDrag_bounds(1) [OF assms(1)] by (simp add: abs_mult)
  also have "\<dots> \<le> \<bar>angularVelocity b\<bar> * 1"
    using angDrag_bounds [OF assms(1)] by (intro mult_left_mono) simp_all
  finally have "\<bar>angularVelocity b * angDrag dt\<bar> < 4 / 10"
    using assms(4) by simp
  with assms(2,4) show "\<bar>angularVelocity (moveBody dt bndX bndY b)\<bar> < 4 / 10"
    by (simp add: moveBody_def Let_def)
qed

section \<open>Colour exchange\<close>

lemma resolvePair_colours:
  assumes "colorIndex a \<noteq> None" and "colorIndex b \<noteq> None" and "resolvePair True a b \<noteq> None"
  shows "map_option pairColours (resolvePair True a b) =
           Some (if approachingHit a b then (colorIndex b, colorIndex a)
                 else (colorIndex a, colorIndex b))"
proof (cases "polygonPolygonSAT (getWorldVertices a) (getWorldVertices b)")
  case SatNull
  then show ?thesis
    by (simp add: resolvePair_miss approachingHit_def pairColours_def)
next
  case SatUnbounded
  with assms(3) show ?thesis by (simp add: resolvePair_None_iff)
next
  case (SatHit normal0 depth)
  show ?thesis
  proof (cases "effInvMass a + effInvMass b = 0")
    case True
    with SatHit show ?thesis
      by (simp add: resolvePair_massless approachingHit_def pairColours_def)
  next
    case False
    note hit = resolvePair_hit [OF SatHit False, of True]
    show ?thesis
    proof (cases "velAlongNormal a b (orientNormal a b normal0) < 0")
      case True
      with SatHit False assms(1,2) show ?thesis
        by (auto simp: hit approachingHit_def pairColours_def transferColorOnCollision_def)
    next
      case nonneg: False
      with SatHit False show ?thesis
        by (simp add: hit approachingHit_def pairColours_def)
    qed
  qed
qed

text \<open>
  Claim C8.  With colour exchange enabled and both colour indices defined, a pair step
  that returns leaves the two colour indices swapped exactly when the test reports a
  hit, some inverse mass counts (so the hit is resolved) and the relative velocity
  along the normal is negative; in every other case, so also for an overlap with
  non-negative relative normal velocity, both indices stay.  And whatever the setting,
  a step of the simulation that returns leaves the multiset of the colour indices of
  all bodies as it was.
\<close>

theorem colour_exchange:
  "(colorIndex a \<noteq> None \<longrightarrow> colorIndex b \<noteq> None \<longrightarrow> resolvePair True a b \<noteq> None \<longrightarrow>
      map_option pairColours (resolvePair True a b) =
        Some (if approachingHit a b then (colorIndex b, colorIndex a)
              else (colorIndex a, colorIndex b))) \<and>
   (\<forall>w'. updatePhysics dt w = Some w' \<longrightarrow>
      mset (map colorIndex (bodies w')) = mset (map colorIndex (bodies w)))"
proof (intro conjI allI impI)
  assume "colorIndex a \<noteq> None" "colorIndex b \<noteq> None" "resolvePair True a b \<noteq> None"
  then show "map_option pairColours (resolvePair True a b) =
        Some (if approachingHit a b then (colorIndex b, colorIndex a)
              else (colorIndex a, colorIndex b))"
    by (rule resolvePair_colours)
next
  fix w'
  assume step: "updatePhysics dt w = Some w'"
  show "mset (map colorIndex (bodies w')) = mset (map colorIndex (bodies w))"
  proof (cases "physicsEnabled w")
    case False
    with step show ?thesis by (simp add: updatePhysics_paused)
  next
    case True
    let ?moved = "map (moveBody dt (worldBoundsX w) (worldBoundsY w)) (bodies w)"
    from updatePhysics_running [OF True step] have
      loop: "pairLoop (colorTransferEnabled w) (allPairs (length ?moved)) ?moved = Some (bodies w')"
      by auto
    have "\<forall>(i, j) \<in> set (allPairs (length ?moved)). i < j \<and> j < length ?moved"
      using allPairs_bounds by blast
    from pairLoop_preserves [OF loop this]
    have "mset (map colorIndex (bodies w')) = mset (map colorIndex ?moved)" by simp
    also have "map colorIndex ?moved = map colorIndex (bodies w)"
      by (simp add: moveBody_def Let_def)
    finally show ?thesis .
  qed
qed

theorem colour_exchange_witness:
  "map_option pairColours
     (resolvePair True
        (slowBig\<lparr>body_id := Suc 0, isMagnetAnchored := False,
                 velocity := (- (19 / 1000 * linearDrag (1 / 100)), 0)\<rparr>)
        (stillSmall\<lparr>body_id := 2, isMagnetAnchored := False\<rparr>)) = Some (Some 7, Some 2) \<and>
   (\<exists>w'. updatePhysics (1 / 100) (slowWorld\<lparr>colorTransferEnabled := True\<rparr>) = Some w' \<and>
      map colorIndex (bodies w') = [Some 7, Some 2] \<and>
      map colorIndex (bodies (slowWorld\<lparr>colorTransferEnabled := True\<rparr>)) = [Some 2, Some 7] \<and>
      mset (map colorIndex (bodies w')) =
        mset (map colorIndex (bodies (slowWorld\<lparr>colorTransferEnabled := True\<rparr>))))"
proof -
  let ?K = "linearDrag (1 / 100)"
  let ?A = "slowBig\<lparr>body_id := Suc 0, isMagnetAnchored := False, velocity := (- (19 / 1000 * ?K), 0)\<rparr>"
  let ?B = "stillSmall\<lparr>body_id := 2, isMagnetAnchored := False\<rparr>"
  let ?W = "slowWorld\<lparr>colorTransferEnabled := True\<rparr>"
  have K: "0 < ?K" by (rule linearDrag_bounds(1)) simp
  have cA: "colorIndex ?A = Some 2" and cB: "colorIndex ?B = Some 7"
    by (simp_all add: slowBig_def stillSmall_def exampleRect_def exampleSmallRect_def bodyLiteral_def)
  have defined: "colorIndex ?A \<noteq> None" "colorIndex ?B \<noteq> None"
    unfolding cA cB by simp_all
  from slow_resolve [of True] have ret: "resolvePair True ?A ?B \<noteq> None" by auto
  have eA: "effInvMass ?A = 4" and eB: "effInvMass ?B = 400"
    by (simp_all add: effInvMass_def slowBig_def stillSmall_def exampleRect_def exampleSmallRect_def
        bodyLiteral_def)
  have n: "orientNormal ?A ?B (- 1, 0) = (- 1, 0)"
    by (simp add: orientNormal_def slowBig_def stillSmall_def exampleRect_def exampleSmallRect_def
        bodyLiteral_def)
  have van: "velAlongNormal ?A ?B (- 1, 0) = - (19 / 1000 * ?K)"
    by (simp add: velAlongNormal_def slowBig_def stillSmall_def exampleRect_def exampleSmallRect_def
        bodyLiteral_def)
  have app: "approachingHit ?A ?B"
    unfolding approachingHit_def slow_sat sat_result.case n van eA eB using K by simp
  from slowWorld_step [of True] obtain w' where
    step: "updatePhysics (1 / 100) ?W = Some w'" and
    after: "map colorIndex (bodies w') = [Some 7, Some 2]"
    by auto
  have before: "map colorIndex (bodies ?W) = [Some 2, Some 7]"
    by (simp add: slowWorld_def exampleWorld_two slowBig_def stillSmall_def exampleRect_def
        exampleSmallRect_def bodyLiteral_def)
  from colour_exchange [of ?A ?B "1 / 100" ?W] defined ret app step
  have p1: "map_option pairColours (resolvePair True ?A ?B) = Some (colorIndex ?B, colorIndex ?A)"
    and m: "mset (map colorIndex (bodies w')) = mset (map colorIndex (bodies ?W))"
    by simp_all
  have p2: "\<exists>w'. updatePhysics (1 / 100) ?W = Some w' \<and>
      map colorIndex (bodies w') = [Some 7, Some 2] \<and>
      map colorIndex (bodies ?W) = [Some 2, Some 7] \<and>
      mset (map colorIndex (bodies w')) = mset (map colorIndex (bodies ?W))"
    by (intro exI [of _ w'] conjI) (fact step after before m)+
  from p1 [unfolded cA cB] p2 show ?thesis by (rule conjI)
qed

lemma edgeAxes_exampleRectVerts: "edgeAxes exampleRectVerts \<noteq> []"
  by (simp add: edgeAxes_def edgeNormal_eval exampleRectVerts_def upt_rec)

theorem dragged_body_is_frozen_witness:
  "\<exists>w'. updatePhysics (1 / 100)
           (exampleWorld [(exampleRect 0 0 2)\<lparr>velocity := (1, 0), isDragged := True\<rparr>]) = Some w' \<and>
      length (bodies w') = 1 \<and> isDragged (bodies w' ! 0) \<and>
      posX (bodies w' ! 0) = 0 \<and> posY (bodies w' ! 0) = 0 \<and>
      velocity (bodies w' ! 0) = (9 / 10, 0)"
proof -
  let ?b = "(exampleRect 0 0 2)\<lparr>velocity := (1, 0), isDragged := True\<rparr>"
  let ?W = "exampleWorld [?b]"
  have bs: "bodies ?W = [?b\<lparr>body_id := 1, isMagnetAnchored := False\<rparr>]"
    and run: "physicsEnabled ?W"
    by (simp_all add: exampleWorld_single)
  have k: "0 < length (bodies ?W)" unfolding bs by simp
  have dr: "isDragged (bodies ?W ! 0)" unfolding bs by simp
  have wf: "\<forall>b \<in> set (bodies ?W). edgeAxes (localVerts b) \<noteq> []"
    unfolding bs using edgeAxes_exampleRectVerts by (simp add: exampleRect_def bodyLiteral_def)
  have fields: "posX (bodies ?W ! 0) = 0" "posY (bodies ?W ! 0) = 0"
    "velocity (bodies ?W ! 0) = (1, 0)" "length (bodies ?W) = 1"
    unfolding bs by (simp_all add: exampleRect_def bodyLiteral_def)
  from dragged_body_is_frozen [OF run k dr, of "1 / 100"] wf
  show ?thesis
    unfolding fields by fastforce
qed

section \<open>The placement engine: facts\<close>

lemma addBodyEntry_fields:
  "bodies (addBodyEntry b w) = bodies w @ [b\<lparr>body_id := nextBodyId w, isMagnetAnchored := False\<rparr>]"
  "nextBodyId (addBodyEntry b w) = nextBodyId w + 1"
  "bodyById (addBodyEntry b w) = (bodyById w)(nextBodyId w \<mapsto> length (bodies w))"
  "worldBoundsX (addBodyEntry b w) = worldBoundsX w"
  "worldBoundsY (addBodyEntry b w) = worldBoundsY w"
  "sceneRef (addBodyEntry b w) = sceneRef w"
  "physicsEnabled (addBodyEntry b w) = physicsEnabled w"
  "colorTransferEnabled (addBodyEntry b w) = colorTransferEnabled w"
  by (simp_all add: addBodyEntry_def registerBody_def)

lemma optList_set [simp]: "c \<in> set (optList p) \<longleftrightarrow> p = Some c"
  by (cases p) (auto simp: optList_def)

text \<open>Every candidate of the three tiers is a value of \<open>ev\<close>.\<close>

lemma pairCandidates_ev:
  "c \<in> set (pairCandidates ev cRadius a b) \<Longrightarrow> \<exists>x y. ev x y = Some c"
  by (auto simp: pairCandidates_def Let_def split: if_splits option.splits)

lemma twoTangentCandidates_ev:
  "c \<in> set (twoTangentCandidates ev cRadius bs) \<Longrightarrow> \<exists>x y. ev x y = Some c"
  by (auto simp: twoTangentCandidates_def split: if_splits dest: pairCandidates_ev)

lemma oneTangentCandidates_ev:
  "c \<in> set (oneTangentCandidates ev cRadius bs) \<Longrightarrow> \<exists>x y. ev x y = Some c"
  by (auto simp: oneTangentCandidates_def set_map_filter_iff)

lemma gridCandidates_ev:
  "gridCandidates ev cRadius bndX bndY = Some cands \<Longrightarrow> c \<in> set cands \<Longrightarrow> \<exists>x y. ev x y = Some c"
  by (fastforce simp: gridCandidates_def Let_def set_map_filter_iff split: if_splits)

lemma bestLoop_mem:
  "bestLoop required cands (best, bestScore) = (Some c, s) \<Longrightarrow> c \<in> set cands \<or> best = Some c"
  by (induction cands arbitrary: best bestScore) (auto split: if_splits)

lemma chooseBest_mem: "chooseBest n cands = Some c \<Longrightarrow> c \<in> set cands"
proof -
  assume a: "chooseBest n cands = Some c"
  let ?req = "if n \<ge> 2 \<and> maxContactsLoop cands 0 \<ge> 2 then 2 else (1::nat)"
  obtain b1 s1 where l1: "bestLoop ?req cands (None, None) = (b1, s1)"
    by (cases "bestLoop ?req cands (None, None)")
  show ?thesis
  proof (cases b1)
    case (Some c')
    with a l1 have "c' = c" by (simp add: chooseBest_def Let_def)
    with l1 Some bestLoop_mem [of ?req cands None None c s1] show ?thesis by simp
  next
    case None
    obtain b2 s2 where l2: "bestLoop 0 cands (None, s1) = (b2, s2)"
      by (cases "bestLoop 0 cands (None, s1)")
    with a l1 None have "b2 = Some c" by (simp add: chooseBest_def Let_def)
    with l2 bestLoop_mem [of 0 cands None s1 c s2] show ?thesis by simp
  qed
qed

lemma evaluateCandidate_Some:
  assumes "evaluateCandidate bndX bndY bs verts rot sType cRadius x y = Some c"
  shows "cand_x c = x" and "cand_y c = y"
    and "\<forall>v \<in> set (transformVerts verts x y rot). \<not> outOfBounds bndX bndY (1 / 1000) v"
    and "\<forall>b \<in> set bs. \<not> illegalOverlap sType cRadius (transformVerts verts x y rot) x y b"
  using assms
  by (auto simp: evaluateCandidate_def Let_def split: if_splits prod.splits)

text \<open>
  What a successful \<open>placeMesh\<close> has done: one body added, at the origin for the first
  body, at a point of \<open>thirdCircle\<close>, or at a point that \<open>evaluateCandidate\<close> accepted.
\<close>

lemma generalPlace_Placed:
  assumes "generalPlace rot bRadius verts sType cRadius cIndex w = Placed w'"
  shows "\<exists>x y c. evaluateCandidate (worldBoundsX w) (worldBoundsY w) (bodies w) verts rot sType cRadius x y = Some c \<and>
           w' = addBodyEntry (bodyLiteral x y rot verts bRadius cRadius sType cIndex) w"
proof -
  let ?ev = "evaluateCandidate (worldBoundsX w) (worldBoundsY w) (bodies w) verts rot sType cRadius"
  let ?t1 = "twoTangentCandidates ?ev cRadius (bodies w)"
  let ?t2 = "if ?t1 = [] then oneTangentCandidates ?ev cRadius (bodies w) else ?t1"
  let ?t3 = "if ?t2 = [] then gridCandidates ?ev cRadius (worldBoundsX w) (worldBoundsY w) else Some ?t2"
  from assms obtain cands c where
    t3: "?t3 = Some cands" and
    best: "chooseBest (length (bodies w)) cands = Some c" and
    w': "w' = addBodyEntry (bodyLiteral (cand_x c) (cand_y c) rot verts bRadius cRadius sType cIndex) w"
    by (auto simp: generalPlace_def Let_def split: option.splits if_splits)
  from best have mem: "c \<in> set cands" by (rule chooseBest_mem)
  have "\<exists>x y. ?ev x y = Some c"
  proof (cases "?t2 = []")
    case True
    with t3 have "gridCandidates ?ev cRadius (worldBoundsX w) (worldBoundsY w) = Some cands" by simp
    from gridCandidates_ev [OF this mem] show ?thesis .
  next
    case False
    with t3 have c2: "cands = ?t2" by simp
    show ?thesis
    proof (cases "?t1 = []")
      case True
      with c2 mem have "c \<in> set (oneTangentCandidates ?ev cRadius (bodies w))" by simp
      then show ?thesis by (rule oneTangentCandidates_ev)
    next
      case False
      with c2 mem have "c \<in> set ?t1" by simp
      then show ?thesis by (rule twoTangentCandidates_ev)
    qed
  qed
  then obtain x y where ev: "?ev x y = Some c" by blast
  from evaluateCandidate_Some(1,2) [OF ev] w' ev show ?thesis by blast
qed

subsection \<open>The two tangent points\<close>

lemma rotate_norm:
  fixes e f a h :: real
  shows "(e * a - f * h) * (e * a - f * h) + (f * a + e * h) * (f * a + e * h) =
         (e * e + f * f) * (a * a + h * h)"
  by (simp add: algebra_simps)

lemma rotate_norm':
  fixes e f a h :: real
  shows "(e * a + f * h) * (e * a + f * h) + (f * a - e * h) * (f * a - e * h) =
         (e * e + f * f) * (a * a + h * h)"
  by (simp add: algebra_simps)

lemma hypot_sq: "hypot a b * hypot a b = a * a + b * b"
  by (simp add: hypot_def)

lemma hypot_eq_abs: "a * a + b * b = r * r \<Longrightarrow> hypot a b = \<bar>r\<bar>"
  by (simp add: hypot_def)

lemma tangentPoints_exact:
  assumes nz: "hypot (bx - ax) (bY - ay) \<noteq> 0"
    and tp: "tangentPoints ax ay bx bY RA RB = Some (c1, c2)"
  shows "hypot (fst c1 - ax) (snd c1 - ay) = \<bar>RA\<bar>" and "hypot (fst c1 - bx) (snd c1 - bY) = \<bar>RB\<bar>"
    and "hypot (fst c2 - ax) (snd c2 - ay) = \<bar>RA\<bar>" and "hypot (fst c2 - bx) (snd c2 - bY) = \<bar>RB\<bar>"
proof -
  define dx where "dx = bx - ax"
  define dy where "dy = bY - ay"
  define d where "d = hypot dx dy"
  define ex where "ex = dx / d"
  define ey where "ey = dy / d"
  define aLen where "aLen = (RA * RA - RB * RB + d * d) / (2 * d)"
  define h2 where "h2 = RA * RA - aLen * aLen"
  define h where "h = sqrt h2"
  have d0: "d \<noteq> 0" using nz by (simp add: d_def dx_def dy_def)
  from tp have h2: "0 \<le> h2"
    and c1: "c1 = (ax + ex * aLen - ey * h, ay + ey * aLen + ex * h)"
    and c2: "c2 = (ax + ex * aLen + ey * h, ay + ey * aLen - ex * h)"
    by (auto simp: tangentPoints_def Let_def dx_def dy_def d_def ex_def ey_def aLen_def h2_def h_def
        split: if_splits)
  have hh: "h * h = h2" using h2 by (simp add: h_def)
  have dd: "d * d = dx * dx + dy * dy" by (simp add: d_def hypot_sq)
  have unit: "ex * ex + ey * ey = 1"
  proof -
    have "ex * ex + ey * ey = (dx * dx + dy * dy) / (d * d)"
      by (simp add: ex_def ey_def add_divide_distrib)
    also have "\<dots> = 1" using d0 by (simp add: dd [symmetric])
    finally show ?thesis .
  qed
  have exd: "ex * d = dx" and eyd: "ey * d = dy"
    using d0 by (simp_all add: ex_def ey_def)
  have al: "2 * (aLen * d) = RA * RA - RB * RB + d * d"
    using d0 by (simp add: aLen_def)
  have sumA: "aLen * aLen + h * h = RA * RA"
    by (simp add: hh h2_def)
  have sumB: "(aLen - d) * (aLen - d) + h * h = RB * RB"
  proof -
    have "(aLen - d) * (aLen - d) + h * h = aLen * aLen + h * h + d * d - 2 * (aLen * d)"
      by (simp add: algebra_simps)
    also have "\<dots> = RB * RB" by (simp add: sumA al)
    finally show ?thesis .
  qed
  have a1: "(fst c1 - ax) * (fst c1 - ax) + (snd c1 - ay) * (snd c1 - ay) = RA * RA"
  proof -
    have "(fst c1 - ax) * (fst c1 - ax) + (snd c1 - ay) * (snd c1 - ay) =
        (ex * aLen - ey * h) * (ex * aLen - ey * h) + (ey * aLen + ex * h) * (ey * aLen + ex * h)"
      by (simp add: c1)
    also have "\<dots> = (ex * ex + ey * ey) * (aLen * aLen + h * h)" by (rule rotate_norm)
    finally show ?thesis by (simp add: unit sumA)
  qed
  have a2: "(fst c2 - ax) * (fst c2 - ax) + (snd c2 - ay) * (snd c2 - ay) = RA * RA"
  proof -
    have "(fst c2 - ax) * (fst c2 - ax) + (snd c2 - ay) * (snd c2 - ay) =
        (ex * aLen + ey * h) * (ex * aLen + ey * h) + (ey * aLen - ex * h) * (ey * aLen - ex * h)"
      by (simp add: c2)
    also have "\<dots> = (ex * ex + ey * ey) * (aLen * aLen + h * h)" by (rule rotate_norm')
    finally show ?thesis by (simp add: unit sumA)
  qed
  have bxe: "bx = ax + ex * d" and bye: "bY = ay + ey * d"
    by (simp_all add: exd eyd dx_def dy_def)
  have b1: "(fst c1 - bx) * (fst c1 - bx) + (snd c1 - bY) * (snd c1 - bY) = RB * RB"
  proof -
    have "fst c1 - bx = ex * (aLen - d) - ey * h" "snd c1 - bY = ey * (aLen - d) + ex * h"
      by (simp_all add: c1 bxe bye algebra_simps)
    then have "(fst c1 - bx) * (fst c1 - bx) + (snd c1 - bY) * (snd c1 - bY) =
        (ex * ex + ey * ey) * ((aLen - d) * (aLen - d) + h * h)"
      by (simp only: rotate_norm)
    then show ?thesis by (simp add: unit sumB)
  qed
  have b2: "(fst c2 - bx) * (fst c2 - bx) + (snd c2 - bY) * (snd c2 - bY) = RB * RB"
  proof -
    have "fst c2 - bx = ex * (aLen - d) + ey * h" "snd c2 - bY = ey * (aLen - d) - ex * h"
      by (simp_all add: c2 bxe bye algebra_simps)
    then have "(fst c2 - bx) * (fst c2 - bx) + (snd c2 - bY) * (snd c2 - bY) =
        (ex * ex + ey * ey) * ((aLen - d) * (aLen - d) + h * h)"
      by (simp only: rotate_norm')
    then show ?thesis by (simp add: unit sumB)
  qed
  show "hypot (fst c1 - ax) (snd c1 - ay) = \<bar>RA\<bar>" by (rule hypot_eq_abs [OF a1])
  show "hypot (fst c1 - bx) (snd c1 - bY) = \<bar>RB\<bar>" by (rule hypot_eq_abs [OF b1])
  show "hypot (fst c2 - ax) (snd c2 - ay) = \<bar>RA\<bar>" by (rule hypot_eq_abs [OF a2])
  show "hypot (fst c2 - bx) (snd c2 - bY) = \<bar>RB\<bar>" by (rule hypot_eq_abs [OF b2])
qed

text \<open>When the two circles of radii \<open>RA\<close> and \<open>RB\<close> meet, the tangent points exist.\<close>

lemma tangentPoints_exist:
  assumes d: "0 < hypot (bx - ax) (bY - ay)"
    and le: "hypot (bx - ax) (bY - ay) \<le> RA + RB"
    and ge: "\<bar>RA - RB\<bar> \<le> hypot (bx - ax) (bY - ay)"
  shows "tangentPoints ax ay bx bY RA RB \<noteq> None"
proof -
  define d where "d = hypot (bx - ax) (bY - ay)"
  define aLen where "aLen = (RA * RA - RB * RB + d * d) / (2 * d)"
  have dpos: "0 < d" using d by (simp add: d_def)
  have le': "d \<le> RA + RB" and ge': "\<bar>RA - RB\<bar> \<le> d" using le ge by (simp_all add: d_def)
  have al: "2 * d * aLen = RA * RA - RB * RB + d * d"
    using dpos by (simp add: aLen_def)
  have "2 * d * (RA - aLen) = (RB - (RA - d)) * (RB + (RA - d))"
  proof -
    have "(RB - (RA - d)) * (RB + (RA - d)) = RB * RB - RA * RA + 2 * (RA * d) - d * d"
      by (simp add: algebra_simps)
    moreover have "2 * d * (RA - aLen) = 2 * (RA * d) - 2 * d * aLen"
      by (simp add: algebra_simps)
    ultimately show ?thesis using al by linarith
  qed
  moreover have "0 \<le> (RB - (RA - d)) * (RB + (RA - d))"
    using le' ge' by (intro mult_nonneg_nonneg) (simp_all add: abs_le_iff)
  ultimately have "0 \<le> 2 * d * (RA - aLen)" by simp
  with dpos have u: "aLen \<le> RA" by (simp add: zero_le_mult_iff)
  have "2 * d * (RA + aLen) = ((RA + d) - RB) * ((RA + d) + RB)"
  proof -
    have "((RA + d) - RB) * ((RA + d) + RB) = RA * RA + 2 * (RA * d) + d * d - RB * RB"
      by (simp add: algebra_simps)
    moreover have "2 * d * (RA + aLen) = 2 * (RA * d) + 2 * d * aLen"
      by (simp add: algebra_simps)
    ultimately show ?thesis using al by linarith
  qed
  moreover have "0 \<le> ((RA + d) - RB) * ((RA + d) + RB)"
    using le' ge' dpos by (intro mult_nonneg_nonneg) (simp_all add: abs_le_iff)
  ultimately have "0 \<le> 2 * d * (RA + aLen)" by simp
  with dpos have l: "- RA \<le> aLen" by (simp add: zero_le_mult_iff)
  have "0 \<le> (RA - aLen) * (RA + aLen)"
    using u l by (intro mult_nonneg_nonneg) simp_all
  then have "0 \<le> RA * RA - aLen * aLen" by (simp add: algebra_simps)
  then show ?thesis
    by (simp add: tangentPoints_def Let_def d_def aLen_def)
qed

subsection \<open>The third circle\<close>

lemma thirdCircleOk_exact:
  assumes "insideBounds bndX bndY r3 c"
    and "hypot (fst c - posX a) (snd c - posY a) = contactRadius a + r3"
    and "hypot (fst c - posX b) (snd c - posY b) = contactRadius b + r3"
    and "0 \<le> contactRadius a + r3" and "0 \<le> contactRadius b + r3"
  shows "thirdCircleOk bndX bndY a b r3 c"
  using assms by (simp add: thirdCircleOk_def insideBounds_def not_less)

lemma thirdCircle_Some:
  assumes "thirdCircle bndX bndY a b r3 = Some c"
  shows "hypot (fst c - posX a) (snd c - posY a) = \<bar>contactRadius a + r3\<bar>"
    and "hypot (fst c - posX b) (snd c - posY b) = \<bar>contactRadius b + r3\<bar>"
proof -
  let ?d = "hypot (posX b - posX a) (posY b - posY a)"
  from assms have d: "1 / 1000000 < ?d"
    by (simp add: thirdCircle_def Let_def split: if_splits)
  then have nz: "?d \<noteq> 0" by simp
  from assms d obtain c1 c2 where
    tp: "tangentPoints (posX a) (posY a) (posX b) (posY b) (contactRadius a + r3) (contactRadius b + r3) =
           Some (c1, c2)" and c: "c = c1 \<or> c = c2"
    by (auto simp: thirdCircle_def Let_def split: if_splits option.splits)
  from c tangentPoints_exact [OF nz tp]
  show "hypot (fst c - posX a) (snd c - posY a) = \<bar>contactRadius a + r3\<bar>"
    and "hypot (fst c - posX b) (snd c - posY b) = \<bar>contactRadius b + r3\<bar>"
    by auto
qed

lemma placeMesh_third:
  assumes "bodies w = [a, b]" and "shapeType a = Circle" and "shapeType b = Circle"
    and "thirdCircle (worldBoundsX w) (worldBoundsY w) a b r3 = Some c"
  shows "placeMesh rot bRadius verts Circle r3 cIndex w =
           Placed (addBodyEntry (bodyLiteral (fst c) (snd c) rot verts bRadius r3 Circle cIndex) w)"
  using assms by (simp add: placeMesh_def)

text \<open>
  Claim C3.  The world holds exactly two bodies \<open>a\<close> and \<open>b\<close>, both circles, and a circle of
  contact radius \<open>r3\<close> is placed; all three contact radii are positive.  The centres are
  more than \<open>1e-6\<close> apart (the guard of the source), at most \<open>r1 + r2 + 2 * r3\<close> and at
  least \<open>|r1 - r2|\<close>, so that the two tangent points \<open>c1\<close> and \<open>c2\<close> exist, and one of them
  leaves the new circle inside the bounds.  Then \<open>placeMesh\<close> succeeds; the bodies are
  \<open>a\<close>, \<open>b\<close> as they were and the new circle at \<open>c1\<close> or \<open>c2\<close>; and its centre is at
  distance exactly \<open>r1 + r3\<close> from \<open>a\<close> and \<open>r2 + r3\<close> from \<open>b\<close>, hence within every
  tolerance.
\<close>

theorem third_circle_tangent:
  assumes two: "bodies w = [a, b]" and ca: "shapeType a = Circle" and cb: "shapeType b = Circle"
    and ra: "0 < contactRadius a" and rb: "0 < contactRadius b" and r3: "0 < r3"
    and d: "1 / 1000000 < hypot (posX b - posX a) (posY b - posY a)"
    and le: "hypot (posX b - posX a) (posY b - posY a) \<le> contactRadius a + contactRadius b + 2 * r3"
    and ge: "\<bar>contactRadius a - contactRadius b\<bar> \<le> hypot (posX b - posX a) (posY b - posY a)"
    and tp: "tangentPoints (posX a) (posY a) (posX b) (posY b) (contactRadius a + r3) (contactRadius b + r3) =
               Some (c1, c2)"
    and inside: "insideBounds (worldBoundsX w) (worldBoundsY w) r3 c1 \<or>
                 insideBounds (worldBoundsX w) (worldBoundsY w) r3 c2"
  shows "\<exists>w' c. placeMesh rot bRadius verts Circle r3 cIndex w = Placed w' \<and> (c = c1 \<or> c = c2) \<and>
           bodies w' = [a, b, placedBody w (fst c) (snd c) rot verts bRadius r3 Circle cIndex] \<and>
           hypot (fst c - posX a) (snd c - posY a) = contactRadius a + r3 \<and>
           hypot (fst c - posX b) (snd c - posY b) = contactRadius b + r3"
proof -
  let ?d = "hypot (posX b - posX a) (posY b - posY a)"
  let ?RA = "contactRadius a + r3" and ?RB = "contactRadius b + r3"
  have nz: "?d \<noteq> 0" using d by simp
  have RA: "0 \<le> ?RA" and RB: "0 \<le> ?RB" using ra rb r3 by simp_all
  note ex = tangentPoints_exact [OF nz tp]
  have ok: "insideBounds (worldBoundsX w) (worldBoundsY w) r3 c \<Longrightarrow>
            thirdCircleOk (worldBoundsX w) (worldBoundsY w) a b r3 c" if "c = c1 \<or> c = c2" for c
    using that ex RA RB by (intro thirdCircleOk_exact) auto
  have guard: "?d > 1 / 1000000 \<and> ?d \<le> ?RA + ?RB \<and> ?d \<ge> \<bar>?RA - ?RB\<bar>"
    using d le ge by simp
  define c where "c = (if thirdCircleOk (worldBoundsX w) (worldBoundsY w) a b r3 c1 then c1 else c2)"
  have cc: "c = c1 \<or> c = c2" by (simp add: c_def)
  have "thirdCircleOk (worldBoundsX w) (worldBoundsY w) a b r3 c1 \<or>
        thirdCircleOk (worldBoundsX w) (worldBoundsY w) a b r3 c2"
    using inside ok by blast
  then have tc: "thirdCircle (worldBoundsX w) (worldBoundsY w) a b r3 = Some c"
    using guard by (auto simp: thirdCircle_def Let_def tp c_def)
  have pm: "placeMesh rot bRadius verts Circle r3 cIndex w =
      Placed (addBodyEntry (bodyLiteral (fst c) (snd c) rot verts bRadius r3 Circle cIndex) w)"
    by (rule placeMesh_third [OF two ca cb tc])
  have bs: "bodies (addBodyEntry (bodyLiteral (fst c) (snd c) rot verts bRadius r3 Circle cIndex) w) =
      [a, b, placedBody w (fst c) (snd c) rot verts bRadius r3 Circle cIndex]"
    by (simp add: addBodyEntry_fields two placedBody_def)
  have da: "hypot (fst c - posX a) (snd c - posY a) = ?RA"
    and db: "hypot (fst c - posX b) (snd c - posY b) = ?RB"
    using cc ex RA RB by auto
  from pm cc bs da db show ?thesis by blast
qed

lemma sqrt_4_25: "sqrt (4 / 25) = 2 / 5"
  by (rule real_sqrt_unique) (simp_all add: power2_eq_square)

lemma tangentPoints_example:
  "tangentPoints 0 0 (6 / 10) 0 (3 / 10 + 2 / 10) (3 / 10 + 2 / 10) =
     Some ((3 / 10, 4 / 10), (3 / 10, - (4 / 10)))"
  by (simp add: tangentPoints_def Let_def sqrt_4_25)

theorem third_circle_tangent_witness:
  "\<exists>w' c. placeMesh 0 (2 / 10) (circleVerts (2 / 10)) Circle (2 / 10) 5 twoCircles = Placed w' \<and>
      (c = (3 / 10, 4 / 10) \<or> c = (3 / 10, - (4 / 10))) \<and>
      length (bodies w') = 3 \<and> take 2 (bodies w') = bodies twoCircles \<and>
      (posX (bodies w' ! 2), posY (bodies w' ! 2)) = c \<and>
      hypot (fst c - 0) (snd c - 0) = 3 / 10 + 2 / 10 \<and>
      hypot (fst c - 6 / 10) (snd c - 0) = 3 / 10 + 2 / 10"
proof -
  let ?a = "(exampleCircle (3 / 10) 0 0 0)\<lparr>body_id := Suc 0, isMagnetAnchored := False\<rparr>"
  let ?b = "(exampleCircle (3 / 10) (6 / 10) 0 1)\<lparr>body_id := 2, isMagnetAnchored := False\<rparr>"
  have two: "bodies twoCircles = [?a, ?b]"
    and bx: "worldBoundsX twoCircles = 4" and bY: "worldBoundsY twoCircles = 22 / 10"
    by (simp_all add: twoCircles_def exampleWorld_two)
  have f: "shapeType ?a = Circle" "shapeType ?b = Circle"
    "contactRadius ?a = 3 / 10" "contactRadius ?b = 3 / 10"
    "posX ?a = 0" "posY ?a = 0" "posX ?b = 6 / 10" "posY ?b = 0"
    by (simp_all add: exampleCircle_def bodyLiteral_def)
  have ra: "0 < contactRadius ?a" and rb: "0 < contactRadius ?b" and r3: "(0::real) < 2 / 10"
    unfolding f by simp_all
  have d: "1 / 1000000 < hypot (posX ?b - posX ?a) (posY ?b - posY ?a)"
    unfolding f by simp
  have le: "hypot (posX ?b - posX ?a) (posY ?b - posY ?a) \<le> contactRadius ?a + contactRadius ?b + 2 * (2 / 10)"
    unfolding f by simp
  have ge: "\<bar>contactRadius ?a - contactRadius ?b\<bar> \<le> hypot (posX ?b - posX ?a) (posY ?b - posY ?a)"
    unfolding f by simp
  have tp: "tangentPoints (posX ?a) (posY ?a) (posX ?b) (posY ?b) (contactRadius ?a + 2 / 10)
              (contactRadius ?b + 2 / 10) = Some ((3 / 10, 4 / 10), (3 / 10, - (4 / 10)))"
    unfolding f by (rule tangentPoints_example)
  have inside: "insideBounds (worldBoundsX twoCircles) (worldBoundsY twoCircles) (2 / 10) (3 / 10, 4 / 10) \<or>
      insideBounds (worldBoundsX twoCircles) (worldBoundsY twoCircles) (2 / 10) (3 / 10, - (4 / 10))"
    unfolding bx bY by (simp add: insideBounds_def)
  from third_circle_tangent [OF two f(1,2) ra rb r3 d le ge tp inside,
      of 0 "2 / 10" "circleVerts (2 / 10)" 5]
  obtain w' c where
    pm: "placeMesh 0 (2 / 10) (circleVerts (2 / 10)) Circle (2 / 10) 5 twoCircles = Placed w'" and
    c: "c = (3 / 10, 4 / 10) \<or> c = (3 / 10, - (4 / 10))" and
    bs: "bodies w' = [?a, ?b, placedBody twoCircles (fst c) (snd c) 0 (circleVerts (2 / 10)) (2 / 10)
                                (2 / 10) Circle 5]" and
    da: "hypot (fst c - posX ?a) (snd c - posY ?a) = contactRadius ?a + 2 / 10" and
    db: "hypot (fst c - posX ?b) (snd c - posY ?b) = contactRadius ?b + 2 / 10"
    by blast
  have l: "length (bodies w') = 3" and t: "take 2 (bodies w') = bodies twoCircles"
    and p: "(posX (bodies w' ! 2), posY (bodies w' ! 2)) = c"
    unfolding bs two by (simp_all add: placedBody_def bodyLiteral_def)
  from pm c l t p da [unfolded f] db [unfolded f] show ?thesis
    by (intro exI [of _ w'] exI [of _ c] conjI)
qed

subsection \<open>A placed body is within tolerance of every earlier one\<close>

lemma set_allPairs: "set (allPairs n) = {(i, j). i < j \<and> j < n}"
proof (intro set_eqI iffI)
  fix p assume "p \<in> set (allPairs n)"
  then show "p \<in> {(i, j). i < j \<and> j < n}" by (auto simp: allPairs_def)
next
  fix p assume "p \<in> {(i, j). i < j \<and> j < n}"
  then obtain i j where p: "p = (i, j)" and ij: "i < j" "j < n" by auto
  then have "i \<in> set [0 ..< n]" and "(i, j) \<in> set (map (\<lambda>j. (i, j)) [i + 1 ..< n])"
    by auto
  then show "p \<in> set (allPairs n)" unfolding p allPairs_def by (auto intro!: bexI [of _ i])
qed

lemma noOverlap_snoc:
  assumes "noOverlap bs" and "\<forall>b \<in> set bs. withinTolerance b nb"
  shows "noOverlap (bs @ [nb])"
  unfolding noOverlap_def set_allPairs
proof (clarsimp)
  fix i j
  assume ij: "i < j" "j < Suc (length bs)"
  show "withinTolerance ((bs @ [nb]) ! i) ((bs @ [nb]) ! j)"
  proof (cases "j < length bs")
    case True
    with ij assms(1) show ?thesis
      by (auto simp: noOverlap_def set_allPairs nth_append)
  next
    case False
    with ij have j: "j = length bs" and i: "i < length bs" by simp_all
    then have "bs ! i \<in> set bs" by simp
    with assms(2) i j show ?thesis by (simp add: nth_append)
  qed
qed

lemma hypot_swap: "hypot (a - b) (c - d) = hypot (b - a) (d - c)"
proof -
  have "(a - b) * (a - b) + (c - d) * (c - d) = (b - a) * (b - a) + (d - c) * (d - c)"
    by (simp add: algebra_simps)
  then show ?thesis by (simp add: hypot_def)
qed

lemma legal_withinTolerance:
  assumes "\<not> illegalOverlap (shapeType nb) (contactRadius nb) (getWorldVertices nb) (posX nb) (posY nb) b"
  shows "withinTolerance b nb"
proof (cases "shapeType b = Circle \<and> shapeType nb = Circle")
  case True
  let ?ideal = "contactRadius b + contactRadius nb"
  from assms True have "\<not> hypot (posX b - posX nb) (posY b - posY nb) < ?ideal - ?ideal * (3 / 100)"
    unfolding illegalOverlap_def Let_def by (simp only: simp_thms if_True)
  then have "?ideal - hypot (posX nb - posX b) (posY nb - posY b) \<le> ?ideal * (3 / 100)"
    unfolding hypot_swap [of "posX b" "posX nb" "posY b" "posY nb"] by linarith
  with True show ?thesis by (simp add: withinTolerance_def)
next
  case False
  with assms show ?thesis
    by (auto simp: illegalOverlap_def withinTolerance_def not_less split: sat_result.splits)
qed

lemma placedBody_fields:
  "posX (placedBody w x y rot verts bRadius cRadius sType cIndex) = x"
  "posY (placedBody w x y rot verts bRadius cRadius sType cIndex) = y"
  "shapeType (placedBody w x y rot verts bRadius cRadius sType cIndex) = sType"
  "contactRadius (placedBody w x y rot verts bRadius cRadius sType cIndex) = cRadius"
  "boundingRadius (placedBody w x y rot verts bRadius cRadius sType cIndex) = bRadius"
  "body_id (placedBody w x y rot verts bRadius cRadius sType cIndex) = nextBodyId w"
  "colorIndex (placedBody w x y rot verts bRadius cRadius sType cIndex) = Some cIndex"
  "getWorldVertices (placedBody w x y rot verts bRadius cRadius sType cIndex) = transformVerts verts x y rot"
  "velocity (placedBody w x y rot verts bRadius cRadius sType cIndex) = (0, 0)"
  by (simp_all add: placedBody_def bodyLiteral_def getWorldVertices_def)

lemma addBodyEntry_placedBody:
  "bodies (addBodyEntry (bodyLiteral x y rot verts bRadius cRadius sType cIndex) w) =
     bodies w @ [placedBody w x y rot verts bRadius cRadius sType cIndex]"
  by (simp add: addBodyEntry_fields placedBody_def)

text \<open>The one lemma about \<open>placeMesh\<close> that everything after it rests on.\<close>

lemma placeMesh_Placed:
  assumes "placeMesh rot bRadius verts sType cRadius cIndex w = Placed w'"
  shows "\<exists>x y. w' = addBodyEntry (bodyLiteral x y rot verts bRadius cRadius sType cIndex) w \<and>
           (\<forall>b \<in> set (bodies w).
              withinTolerance b (placedBody w x y rot verts bRadius cRadius sType cIndex))"
proof (cases "length (bodies w) = 0")
  case True
  with assms show ?thesis
    by (auto simp: placeMesh_def split: if_splits)
next
  case False
  let ?third = "if sType = Circle \<and> length (bodies w) = 2 \<and>
                  shapeType (bodies w ! 0) = Circle \<and> shapeType (bodies w ! 1) = Circle
               then thirdCircle (worldBoundsX w) (worldBoundsY w) (bodies w ! 0) (bodies w ! 1) cRadius
               else None"
  show ?thesis
  proof (cases ?third)
    case None
    with assms False have "generalPlace rot bRadius verts sType cRadius cIndex w = Placed w'"
      by (simp add: placeMesh_def)
    from generalPlace_Placed [OF this] obtain x y c where
      ev: "evaluateCandidate (worldBoundsX w) (worldBoundsY w) (bodies w) verts rot sType cRadius x y = Some c"
      and w': "w' = addBodyEntry (bodyLiteral x y rot verts bRadius cRadius sType cIndex) w"
      by blast
    have "\<forall>b \<in> set (bodies w). withinTolerance b (placedBody w x y rot verts bRadius cRadius sType cIndex)"
    proof
      fix b assume "b \<in> set (bodies w)"
      with evaluateCandidate_Some(4) [OF ev]
      have "\<not> illegalOverlap sType cRadius (transformVerts verts x y rot) x y b" by blast
      then show "withinTolerance b (placedBody w x y rot verts bRadius cRadius sType cIndex)"
        by (intro legal_withinTolerance) (simp add: placedBody_fields)
    qed
    with w' show ?thesis by blast
  next
    case (Some c)
    then have st: "sType = Circle" and len: "length (bodies w) = 2"
      and c0: "shapeType (bodies w ! 0) = Circle" and c1: "shapeType (bodies w ! 1) = Circle"
      and tc: "thirdCircle (worldBoundsX w) (worldBoundsY w) (bodies w ! 0) (bodies w ! 1) cRadius = Some c"
      by (simp_all split: if_splits)
    from len obtain a b where two: "bodies w = [a, b]"
      by (cases "bodies w"; simp) (metis length_0_conv length_Suc_conv One_nat_def Suc_1 Suc_inject neq_Nil_conv list.size(4))
    from assms False Some have w': "w' = addBodyEntry (bodyLiteral (fst c) (snd c) rot verts bRadius cRadius sType cIndex) w"
      by (simp add: placeMesh_def)
    let ?nb = "placedBody w (fst c) (snd c) rot verts bRadius cRadius sType cIndex"
    from tc two have tc': "thirdCircle (worldBoundsX w) (worldBoundsY w) a b cRadius = Some c" by simp
    note ex = thirdCircle_Some [OF tc']
    have near: "r - \<bar>r\<bar> \<le> r * (3 / 100)" for r :: real by linarith
    have ta: "withinTolerance a ?nb"
      using c0 two st near [of "contactRadius a + cRadius"]
      by (simp add: withinTolerance_def placedBody_fields ex(1))
    have tb: "withinTolerance b ?nb"
      using c1 two st near [of "contactRadius b + cRadius"]
      by (simp add: withinTolerance_def placedBody_fields ex(2))
    from ta tb two w' show ?thesis by auto
  qed
qed

section \<open>Building a composition: facts\<close>

lemma placements_trans:
  assumes "placements b c" and "placements a b"
  shows "placements a c"
  using assms
proof (induction rule: placements.induct)
  case (placements_none w)
  then show ?case .
next
  case (placements_step w w1 rot bRadius verts sType cRadius cIndex w2)
  from placements_step.IH [OF placements_step.prems] placements_step.hyps(2)
  show ?case by (rule placements.placements_step)
qed

lemma placements_single:
  "placeMesh rot bRadius verts sType cRadius cIndex w = Placed w' \<Longrightarrow> placements w w'"
  by (rule placements_step [OF placements_none])

lemma rngNext_world [simp]: "theWorld (snd (rngNext s)) = theWorld s"
  by (simp add: rngNext_def split: prod.splits)

lemma randomColor_world [simp]: "theWorld (randomColor s) = theWorld s"
  by (simp add: randomColor_def)

lemma materialFor_world [simp]: "theWorld (materialFor i s) = theWorld s"
  by (simp add: materialFor_def)

lemma takePresetIndex_world [simp]: "theWorld (snd (takePresetIndex s)) = theWorld s"
  by (simp add: takePresetIndex_def Let_def rngNext_def split: prod.splits)

lemma placeWithRotations_placements:
  "placeWithRotations n bRadius verts sType cRadius cIndex s = Some s' \<Longrightarrow>
   placements (theWorld s) (theWorld s')"
proof (induction n arbitrary: s)
  case 0
  then show ?case by (simp add: placements_none)
next
  case (Suc n)
  obtain r s1 where r: "rngNext s = (r, s1)" by (cases "rngNext s")
  then have w1: "theWorld s1 = theWorld s"
    using rngNext_world [of s] by simp
  show ?case
  proof (cases "placeMesh (r * pi * 2) bRadius verts sType cRadius cIndex (theWorld s1)")
    case Hangs
    with Suc.prems r show ?thesis by simp
  next
    case Failed
    with Suc.prems r have "placeWithRotations n bRadius verts sType cRadius cIndex s1 = Some s'"
      by simp
    from Suc.IH [OF this] w1 show ?thesis by simp
  next
    case (Placed w)
    with Suc.prems r have "s' = s1\<lparr>theWorld := w\<rparr>" by simp
    with placements_single [OF Placed] w1 show ?thesis by simp
  qed
qed

lemma addCircle_placements: "addCircle radius s = Some s' \<Longrightarrow> placements (theWorld s) (theWorld s')"
proof -
  assume a: "addCircle radius s = Some s'"
  obtain i s1 where t: "takePresetIndex s = (i, s1)" by (cases "takePresetIndex s")
  then have w1: "theWorld s1 = theWorld s" using takePresetIndex_world [of s] by simp
  let ?s2 = "materialFor i s1"
  show ?thesis
  proof (cases "placeMesh 0 (radius * 1) (circleVerts (radius * 1)) Circle (radius * 1) i (theWorld ?s2)")
    case Hangs
    with a t show ?thesis by (simp add: addCircle_def Let_def)
  next
    case Failed
    with a t have "s' = ?s2" by (simp add: addCircle_def Let_def)
    with w1 show ?thesis by (simp add: placements_none)
  next
    case (Placed w)
    with a t have "s' = ?s2\<lparr>theWorld := w\<rparr>" by (simp add: addCircle_def Let_def)
    with placements_single [OF Placed] w1 show ?thesis by simp
  qed
qed

lemma addRect_placements: "addRect width height s = Some s' \<Longrightarrow> placements (theWorld s) (theWorld s')"
proof -
  assume a: "addRect width height s = Some s'"
  obtain i s1 where t: "takePresetIndex s = (i, s1)" by (cases "takePresetIndex s")
  then have w1: "theWorld s1 = theWorld s" using takePresetIndex_world [of s] by simp
  from a t placeWithRotations_placements [of 12 _ _ Rect _ i "materialFor i s1" s'] w1
  show ?thesis by (simp add: addRect_def Let_def)
qed

lemma addTriangle_placements: "addTriangle sz s = Some s' \<Longrightarrow> placements (theWorld s) (theWorld s')"
proof -
  assume a: "addTriangle sz s = Some s'"
  obtain i s1 where t: "takePresetIndex s = (i, s1)" by (cases "takePresetIndex s")
  then have w1: "theWorld s1 = theWorld s" using takePresetIndex_world [of s] by simp
  from a t placeWithRotations_placements [of 10 _ _ Tri _ i "materialFor i s1" s'] w1
  show ?thesis by (simp add: addTriangle_def Let_def)
qed

lemma addSquare_placements: "addSquare sz s = Some s' \<Longrightarrow> placements (theWorld s) (theWorld s')"
  by (simp add: addSquare_def addRect_placements)

lemma bind_placements:
  assumes "Option.bind (f s) g = Some s'"
    and "\<And>s1. f s = Some s1 \<Longrightarrow> placements (theWorld s) (theWorld s1)"
    and "\<And>s1. g s1 = Some s' \<Longrightarrow> placements (theWorld s1) (theWorld s')"
  shows "placements (theWorld s) (theWorld s')"
proof -
  from assms(1) obtain s1 where "f s = Some s1" "g s1 = Some s'"
    by (cases "f s") auto
  with assms(2,3) show ?thesis by (blast intro: placements_trans [rotated])
qed

lemma addAllShapes_placements:
  "addAllShapes s = Some s' \<Longrightarrow> placements (theWorld s) (theWorld s')"
  unfolding addAllShapes_def
  by (erule bind_placements, erule addCircle_placements addSquare_placements addTriangle_placements
        addRect_placements)+
     (erule addSquare_placements)

subsection \<open>What placing preserves\<close>

lemma placements_frame:
  assumes "placements w w'"
  shows "worldBoundsX w' = worldBoundsX w \<and> worldBoundsY w' = worldBoundsY w \<and>
         sceneRef w' = sceneRef w \<and> physicsEnabled w' = physicsEnabled w \<and>
         colorTransferEnabled w' = colorTransferEnabled w \<and>
         (\<exists>ext. bodies w' = bodies w @ ext)"
  using assms
proof (induction rule: placements.induct)
  case (placements_none w)
  show ?case by simp
next
  case (placements_step w w1 rot bRadius verts sType cRadius cIndex w2)
  from placeMesh_Placed [OF placements_step.hyps(2)] obtain x y where
    "w2 = addBodyEntry (bodyLiteral x y rot verts bRadius cRadius sType cIndex) w1" by blast
  with placements_step.IH show ?case
    by (auto simp: addBodyEntry_fields)
qed

lemma placements_noOverlap:
  assumes "placements w w'" and "noOverlap (bodies w)"
  shows "noOverlap (bodies w')"
  using assms
proof (induction rule: placements.induct)
  case (placements_none w)
  then show ?case .
next
  case (placements_step w w1 rot bRadius verts sType cRadius cIndex w2)
  from placeMesh_Placed [OF placements_step.hyps(2)] obtain x y where
    w2: "w2 = addBodyEntry (bodyLiteral x y rot verts bRadius cRadius sType cIndex) w1" and
    tol: "\<forall>b \<in> set (bodies w1). withinTolerance b (placedBody w1 x y rot verts bRadius cRadius sType cIndex)"
    by blast
  from placements_step.IH [OF placements_step.prems] tol
  have "noOverlap (bodies w1 @ [placedBody w1 x y rot verts bRadius cRadius sType cIndex])"
    by (rule noOverlap_snoc)
  then show ?case by (simp add: w2 addBodyEntry_placedBody)
qed

lemma registryFrom_addBodyEntry:
  assumes "registryFrom m w"
  shows "registryFrom m (addBodyEntry b w)"
  using assms by (auto simp: registryFrom_def addBodyEntry_fields)

lemma placements_registry:
  assumes "placements w w'" and "registryFrom m w"
  shows "registryFrom m w'"
  using assms
proof (induction rule: placements.induct)
  case (placements_none w)
  then show ?case .
next
  case (placements_step w w1 rot bRadius verts sType cRadius cIndex w2)
  from placeMesh_Placed [OF placements_step.hyps(2)] obtain x y where
    "w2 = addBodyEntry (bodyLiteral x y rot verts bRadius cRadius sType cIndex) w1" by blast
  with placements_step.IH [OF placements_step.prems] show ?case
    by (simp add: registryFrom_addBodyEntry)
qed

subsection \<open>The launch loop\<close>

lemma launchBody_sameShape: "sameShape b (fst (launchBody b s))"
  by (auto simp: launchBody_def Let_def sameShape_def split: prod.splits)

lemma launchLoop_sameShape: "list_all2 sameShape bs (fst (launchLoop bs s))"
proof (induction bs arbitrary: s)
  case Nil
  show ?case by simp
next
  case (Cons b bs)
  obtain b' s1 where l: "launchBody b s = (b', s1)" by (cases "launchBody b s")
  obtain bs' s2 where r: "launchLoop bs s1 = (bs', s2)" by (cases "launchLoop bs s1")
  from launchBody_sameShape [of b s] l have "sameShape b b'" by simp
  moreover from Cons.IH [of s1] r have "list_all2 sameShape bs bs'" by simp
  ultimately show ?case by (simp add: l r)
qed

lemma sameShape_withinTolerance:
  "sameShape a a' \<Longrightarrow> sameShape b b' \<Longrightarrow> withinTolerance a' b' = withinTolerance a b"
  by (simp add: sameShape_def withinTolerance_def getWorldVertices_def)

lemma sameShape_noOverlap:
  assumes "list_all2 sameShape bs bs'" and "noOverlap bs"
  shows "noOverlap bs'"
proof -
  from assms(1) have len: "length bs' = length bs" by (simp add: list_all2_lengthD)
  show ?thesis
    unfolding noOverlap_def set_allPairs len
  proof clarsimp
    fix i j assume ij: "i < j" "j < length bs"
    with assms(1) have "sameShape (bs ! i) (bs' ! i)" "sameShape (bs ! j) (bs' ! j)"
      by (simp_all add: list_all2_conv_all_nth)
    then have "withinTolerance (bs' ! i) (bs' ! j) = withinTolerance (bs ! i) (bs ! j)"
      by (rule sameShape_withinTolerance)
    with assms(2) ij show "withinTolerance (bs' ! i) (bs' ! j)"
      by (simp add: noOverlap_def set_allPairs)
  qed
qed

lemma sameShape_ids:
  "list_all2 sameShape bs bs' \<Longrightarrow>
   map body_id bs' = map body_id bs \<and> map colorIndex bs' = map colorIndex bs"
  by (induction rule: list_all2_induct) (simp_all add: sameShape_def)

text \<open>
  \<open>createShapes\<close>, when it returns: some placements, then the launch loop on the bodies,
  with the simulation switched on.
\<close>

lemma createShapes_Some:
  assumes "createShapes rng w = Some w'"
  shows "\<exists>w1. placements w w1 \<and> list_all2 sameShape (bodies w1) (bodies w') \<and>
           nextBodyId w' = nextBodyId w1 \<and> bodyById w' = bodyById w1 \<and>
           worldBoundsX w' = worldBoundsX w \<and> worldBoundsY w' = worldBoundsY w \<and>
           sceneRef w' = sceneRef w \<and> colorTransferEnabled w' = colorTransferEnabled w \<and>
           physicsEnabled w'"
proof -
  let ?s0 = "\<lparr>rngState = rng, availablePresetIndices = [0 ..< length COLOR_PRESETS], theWorld = w\<rparr>"
  from assms obtain s where s: "addAllShapes ?s0 = Some s"
    by (auto simp: createShapes_def split: option.splits)
  let ?w1 = "setPhysicsEnabled True (theWorld s)"
  obtain bs s' where l: "launchLoop (bodies ?w1) (s\<lparr>theWorld := ?w1\<rparr>) = (bs, s')"
    by (cases "launchLoop (bodies ?w1) (s\<lparr>theWorld := ?w1\<rparr>)")
  from assms s l have w': "w' = ?w1\<lparr>bodies := bs\<rparr>"
    by (simp add: createShapes_def Let_def)
  from addAllShapes_placements [OF s] have pl: "placements w (theWorld s)" by simp
  from launchLoop_sameShape [of "bodies ?w1" "s\<lparr>theWorld := ?w1\<rparr>"] l
  have ss: "list_all2 sameShape (bodies (theWorld s)) bs"
    by (simp add: setPhysicsEnabled_def)
  from placements_frame [OF pl] w' ss pl show ?thesis
    by (intro exI [of _ "theWorld s"]) (simp add: setPhysicsEnabled_def)
qed

subsection \<open>Every call returns\<close>

lemma generalPlace_returns:
  "0 < cRadius \<Longrightarrow> generalPlace rot bRadius verts sType cRadius cIndex w \<noteq> Hangs"
  by (simp add: generalPlace_def gridCandidates_def Let_def split: option.splits)

lemma placeMesh_returns:
  "0 < cRadius \<Longrightarrow> placeMesh rot bRadius verts sType cRadius cIndex w \<noteq> Hangs"
  by (simp add: placeMesh_def generalPlace_returns split: option.splits)

lemma placeWithRotations_returns:
  "0 < cRadius \<Longrightarrow> \<exists>s'. placeWithRotations n bRadius verts sType cRadius cIndex s = Some s'"
proof (induction n arbitrary: s)
  case 0
  show ?case by simp
next
  case (Suc n)
  obtain r s1 where r: "rngNext s = (r, s1)" by (cases "rngNext s")
  show ?case
  proof (cases "placeMesh (r * pi * 2) bRadius verts sType cRadius cIndex (theWorld s1)")
    case Hangs
    with placeMesh_returns [OF Suc.prems] show ?thesis by blast
  next
    case Failed
    with Suc.IH [OF Suc.prems, of s1] r show ?thesis by simp
  next
    case (Placed w)
    with r show ?thesis by simp
  qed
qed

lemma addCircle_returns: "0 < radius \<Longrightarrow> \<exists>s'. addCircle radius s = Some s'"
proof -
  assume "0 < radius"
  then have pos: "0 < radius * 1" by simp
  obtain i s1 where t: "takePresetIndex s = (i, s1)" by (cases "takePresetIndex s")
  show ?thesis
  proof (cases "placeMesh 0 (radius * 1) (circleVerts (radius * 1)) Circle (radius * 1) i
                  (theWorld (materialFor i s1))")
    case Hangs
    with placeMesh_returns [OF pos] show ?thesis by blast
  next
    case Failed
    with t show ?thesis unfolding addCircle_def Let_def by simp
  next
    case (Placed w)
    with t show ?thesis unfolding addCircle_def Let_def by simp
  qed
qed

lemma addRect_returns: "0 < width \<Longrightarrow> 0 < height \<Longrightarrow> \<exists>s'. addRect width height s = Some s'"
proof -
  assume "0 < width" "0 < height"
  then have "0 < min (width * 1 * (5 / 10)) (height * 1 * (5 / 10)) * (7 / 10)" by simp
  from placeWithRotations_returns [OF this] show ?thesis
    by (simp add: addRect_def Let_def split: prod.splits)
qed

lemma boundingRadiusLoop_ge: "r0 \<le> boundingRadiusLoop vs r0"
proof (induction vs arbitrary: r0)
  case Nil
  show ?case by simp
next
  case (Cons v vs)
  have "r0 \<le> (if hypot (fst v) (snd v) > r0 then hypot (fst v) (snd v) else r0)" by simp
  also have "\<dots> \<le> boundingRadiusLoop vs (if hypot (fst v) (snd v) > r0 then hypot (fst v) (snd v) else r0)"
    by (rule Cons.IH)
  finally show ?case by simp
qed

lemma addTriangle_returns: "0 < sz \<Longrightarrow> \<exists>s'. addTriangle sz s = Some s'"
proof -
  assume sz: "0 < sz"
  let ?vs = "triVerts (sz * 1)"
  have "boundingRadiusLoop ?vs 0 =
      boundingRadiusLoop (tl ?vs) (if hypot 0 sz > 0 then hypot 0 sz else 0)"
    by (simp add: triVerts_def)
  also have "\<dots> = boundingRadiusLoop (tl ?vs) sz" using sz by simp
  finally have "sz \<le> boundingRadiusLoop ?vs 0"
    using boundingRadiusLoop_ge [of sz "tl ?vs"] by simp
  with sz have "0 < boundingRadiusLoop ?vs 0 * (6 / 10)" by simp
  from placeWithRotations_returns [OF this] show ?thesis
    by (simp add: addTriangle_def Let_def split: prod.splits)
qed

lemma addSquare_returns: "0 < sz \<Longrightarrow> \<exists>s'. addSquare sz s = Some s'"
  by (simp add: addSquare_def addRect_returns)

lemma bind_returns:
  "\<exists>s1. m = Some s1 \<Longrightarrow> (\<And>s1. \<exists>s'. g s1 = Some s') \<Longrightarrow> \<exists>s'. Option.bind m g = Some s'"
  by auto

lemma addAllShapes_returns: "\<exists>s'. addAllShapes s = Some s'"
  unfolding addAllShapes_def
  by (intro bind_returns addCircle_returns addSquare_returns addTriangle_returns addRect_returns)
     simp_all

lemma createShapes_returns: "\<exists>w'. createShapes rng w = Some w'"
proof -
  obtain s where "addAllShapes \<lparr>rngState = rng, availablePresetIndices = [0 ..< length COLOR_PRESETS],
      theWorld = w\<rparr> = Some s"
    using addAllShapes_returns by blast
  then show ?thesis
    by (simp add: createShapes_def Let_def split: prod.splits)
qed

lemma regenerateComposition_returns: "\<exists>w'. regenerateComposition seedStr w = Some w'"
  by (simp add: regenerateComposition_def createShapes_returns)

subsection \<open>The world bounds of the camera\<close>

lemma updateWorldBounds_fields:
  "bodies (updateWorldBounds aspect w) = bodies w"
  "nextBodyId (updateWorldBounds aspect w) = nextBodyId w"
  "bodyById (updateWorldBounds aspect w) = bodyById w"
  "sceneRef (updateWorldBounds aspect w) = sceneRef w"
  "worldBoundsX (updateWorldBounds aspect w) = tan (35 * pi / 180 / 2) * 7 * aspect"
  "worldBoundsY (updateWorldBounds aspect w) = tan (35 * pi / 180 / 2) * 7"
  by (simp_all add: updateWorldBounds_def Let_def)

lemma sin_pi12_ge: "1 / 4 \<le> sin (pi / 12)"
proof -
  have s0: "0 \<le> sin (pi / 12)" by (rule sin_ge_zero) simp_all
  have "1 / 2 = sin (2 * (pi / 12))" by (simp add: sin_30)
  also have "\<dots> = 2 * sin (pi / 12) * cos (pi / 12)" by (rule sin_double)
  also have "\<dots> \<le> 2 * sin (pi / 12) * 1"
    by (rule mult_left_mono) (use s0 in simp_all)
  finally show ?thesis by simp
qed

lemma tan_pi12_ge: "1 / 4 \<le> tan (pi / 12)"
proof -
  have s0: "0 \<le> sin (pi / 12)" by (rule sin_ge_zero) simp_all
  have c0: "0 < cos (pi / 12)" by (rule cos_gt_zero_pi) simp_all
  have "sin (pi / 12) * cos (pi / 12) \<le> sin (pi / 12) * 1"
    by (rule mult_left_mono) (use s0 in simp_all)
  then have "sin (pi / 12) \<le> sin (pi / 12) / cos (pi / 12)"
    using c0 by (simp add: field_simps)
  with sin_pi12_ge have "1 / 4 \<le> sin (pi / 12) / cos (pi / 12)" by (rule order_trans)
  then show ?thesis unfolding tan_def .
qed

lemma halfHeight_ge: "3 / 10 \<le> tan (35 * pi / 180 / 2) * 7"
proof -
  have "tan (pi / 12) \<le> tan (35 * pi / 180 / 2)"
    by (rule tan_mono_le) simp_all
  with tan_pi12_ge show ?thesis by simp
qed

subsection \<open>The placement phase leaves no overlap beyond the tolerance\<close>

lemma createShapes_noOverlap:
  assumes "noOverlap (bodies w)"
  shows "\<exists>w'. createShapes rng w = Some w' \<and> noOverlap (bodies w')"
proof -
  from createShapes_returns obtain w' where w': "createShapes rng w = Some w'" by blast
  from createShapes_Some [OF w'] obtain w1
    where pl: "placements w w1" and ss: "list_all2 sameShape (bodies w1) (bodies w')"
    by blast
  from placements_noOverlap [OF pl assms] have "noOverlap (bodies w1)" .
  from sameShape_noOverlap [OF ss this] w' show ?thesis by blast
qed

lemma noOverlap_Nil: "noOverlap []"
  by (simp add: noOverlap_def allPairs_def)

lemma createShapes_extends:
  assumes "createShapes rng w = Some w'"
  shows "length (bodies w) \<le> length (bodies w')"
proof -
  from createShapes_Some [OF assms] obtain w1
    where pl: "placements w w1" and ss: "list_all2 sameShape (bodies w1) (bodies w')"
    by blast
  from placements_frame [OF pl] obtain ext where "bodies w1 = bodies w @ ext" by blast
  with ss show ?thesis by (auto dest: list_all2_lengthD)
qed

text \<open>
  Claim C2.  The placement phase is \<open>createShapes\<close>: it returns, and when the bodies it
  starts from do not overlap beyond the tolerance, the bodies it ends with do not either:
  for every pair, two circles are at most 3% of the sum of their contact radii closer than
  that sum, and any other pair has no hit of the separating-axis test on the world
  vertices or one of depth at most 0.002.  Both callers start it from an empty registry:
  \<open>createScene\<close> at start-up and \<open>regenerateComposition\<close> on every rebuild, so after the
  placement phase of either, before any simulation step, no pair overlaps beyond the
  tolerance.
\<close>

theorem placement_within_tolerance:
  "(noOverlap (bodies w) \<longrightarrow> (\<exists>w'. createShapes rng w = Some w' \<and> noOverlap (bodies w'))) \<and>
   (bodies w = [] \<longrightarrow>
      (\<exists>w'. createScene seedStr aspect w = Some w' \<and> noOverlap (bodies w'))) \<and>
   (sceneRef w \<longrightarrow> (\<exists>w'. regenerateComposition seedStr w = Some w' \<and> noOverlap (bodies w')))"
proof (intro conjI impI)
  assume "noOverlap (bodies w)"
  then show "\<exists>w'. createShapes rng w = Some w' \<and> noOverlap (bodies w')"
    by (rule createShapes_noOverlap)
next
  assume "bodies w = []"
  then have "noOverlap (bodies (updateWorldBounds aspect (w\<lparr>sceneRef := True\<rparr>)))"
    by (simp add: noOverlap_Nil updateWorldBounds_fields)
  from createShapes_noOverlap [OF this]
  show "\<exists>w'. createScene seedStr aspect w = Some w' \<and> noOverlap (bodies w')"
    unfolding createScene_def .
next
  assume sc: "sceneRef w"
  have "noOverlap (bodies ((setPhysicsEnabled False (w\<lparr>bodies := []\<rparr>))
      \<lparr>bodyById := Map.empty, nextBodyId := 1\<rparr>))"
    by (simp add: noOverlap_Nil setPhysicsEnabled_def)
  from createShapes_noOverlap [OF this] sc
  show "\<exists>w'. regenerateComposition seedStr w = Some w' \<and> noOverlap (bodies w')"
    unfolding regenerateComposition_def by simp
qed

lemma twoCircles_noOverlap: "noOverlap (bodies twoCircles)"
  by (simp add: noOverlap_def twoCircles_def exampleWorld_two allPairs_2 withinTolerance_def
      exampleCircle_def bodyLiteral_def)

theorem placement_within_tolerance_witness:
  "noOverlap (bodies twoCircles) \<and>
   (\<exists>w'. createShapes 0 twoCircles = Some w' \<and> noOverlap (bodies w') \<and> 2 \<le> length (bodies w')) \<and>
   bodies initialWorld = [] \<and>
   (\<exists>w'. createScene [97] 2 initialWorld = Some w' \<and> noOverlap (bodies w')) \<and>
   sceneRef (twoCircles\<lparr>sceneRef := True\<rparr>) \<and>
   (\<exists>w'. regenerateComposition [97] (twoCircles\<lparr>sceneRef := True\<rparr>) = Some w' \<and> noOverlap (bodies w'))"
proof -
  note t = placement_within_tolerance [of twoCircles 0 "[97]" 2]
  note i = placement_within_tolerance [of initialWorld 0 "[97]" 2]
  note r = placement_within_tolerance [of "twoCircles\<lparr>sceneRef := True\<rparr>" 0 "[97]" 2]
  have n: "noOverlap (bodies twoCircles)" by (rule twoCircles_noOverlap)
  with t obtain w' where w': "createShapes 0 twoCircles = Some w'" "noOverlap (bodies w')"
    by blast
  have "length (bodies twoCircles) = 2" by (simp add: twoCircles_def exampleWorld_two)
  with createShapes_extends [OF w'(1)] have "2 \<le> length (bodies w')" by simp
  with w' have A: "\<exists>w'. createShapes 0 twoCircles = Some w' \<and> noOverlap (bodies w') \<and> 2 \<le> length (bodies w')"
    by blast
  have e: "bodies initialWorld = []" by (simp add: initialWorld_def)
  with i have B: "\<exists>w'. createScene [97] 2 initialWorld = Some w' \<and> noOverlap (bodies w')"
    by blast
  have s: "sceneRef (twoCircles\<lparr>sceneRef := True\<rparr>)" by simp
  with r have C: "\<exists>w'. regenerateComposition [97] (twoCircles\<lparr>sceneRef := True\<rparr>) = Some w' \<and> noOverlap (bodies w')"
    by blast
  from n A e B s C show ?thesis by (intro conjI)
qed

subsection \<open>Ids within and across compositions\<close>

lemma addAllShapes_first:
  assumes "addAllShapes s = Some s'"
  shows "\<exists>s1. addCircle (3 / 10) s = Some s1 \<and> placements (theWorld s1) (theWorld s')"
proof -
  from assms obtain s1 where c: "addCircle (3 / 10) s = Some s1"
    by (cases "addCircle (3 / 10) s") (simp_all add: addAllShapes_def)
  have rest: "
     Option.bind (addSquare (3 / 10) s1) (\<lambda>s.
     Option.bind (addTriangle (3 / 10) s) (\<lambda>s.
     Option.bind (addRect 1 (2 / 10) s) (\<lambda>s.
     Option.bind (addCircle (65 / 100) s) (\<lambda>s.
     Option.bind (addSquare (8 / 10) s) (\<lambda>s.
     Option.bind (addRect 1 (4 / 10) s) (\<lambda>s.
     Option.bind (addTriangle 1 s) (\<lambda>s.
     Option.bind (addCircle (8 / 10) s) (\<lambda>s.
     addSquare (12 / 10) s)))))))) = Some s' \<Longrightarrow> placements (theWorld s1) (theWorld s')"
    by (erule bind_placements, erule addCircle_placements addSquare_placements addTriangle_placements
        addRect_placements)+
       (erule addSquare_placements)
  from assms c have "placements (theWorld s1) (theWorld s')"
    by (intro rest) (simp add: addAllShapes_def)
  with c show ?thesis by blast
qed

lemma addCircle_first:
  assumes "bodies (theWorld s) = []"
    and "radius \<le> worldBoundsX (theWorld s)" and "radius \<le> worldBoundsY (theWorld s)"
    and "addCircle radius s = Some s1"
  shows "map (\<lambda>b. (body_id b, colorIndex b)) (bodies (theWorld s1)) =
           [(nextBodyId (theWorld s), Some (fst (takePresetIndex s)))]"
proof -
  obtain i s0 where t: "takePresetIndex s = (i, s0)" by (cases "takePresetIndex s")
  then have w0: "theWorld s0 = theWorld s" using takePresetIndex_world [of s] by simp
  have pm: "placeMesh 0 (radius * 1) (circleVerts (radius * 1)) Circle (radius * 1) i (theWorld s) =
      Placed (addBodyEntry (bodyLiteral 0 0 0 (circleVerts (radius * 1)) (radius * 1) (radius * 1) Circle i)
                (theWorld s))"
    using assms(1-3) by (simp add: placeMesh_def)
  from assms(4) t w0 pm have "theWorld s1 =
      addBodyEntry (bodyLiteral 0 0 0 (circleVerts (radius * 1)) (radius * 1) (radius * 1) Circle i)
                (theWorld s)"
    by (auto simp: addCircle_def Let_def)
  with assms(1) t show ?thesis
    by (simp add: addBodyEntry_placedBody placedBody_fields)
qed

lemma createShapes_first:
  assumes "bodies w = []" and "3 / 10 \<le> worldBoundsX w" and "3 / 10 \<le> worldBoundsY w"
    and "createShapes rng w = Some w'"
  shows "firstIdAndColour w' =
           [(nextBodyId w, Some (fst (takePresetIndex
               \<lparr>rngState = rng, availablePresetIndices = [0 ..< length COLOR_PRESETS], theWorld = w\<rparr>)))]"
proof -
  let ?s0 = "\<lparr>rngState = rng, availablePresetIndices = [0 ..< length COLOR_PRESETS], theWorld = w\<rparr>"
  from assms(4) obtain s where s: "addAllShapes ?s0 = Some s"
    by (auto simp: createShapes_def split: option.splits)
  let ?w1 = "setPhysicsEnabled True (theWorld s)"
  obtain bs s' where l: "launchLoop (bodies ?w1) (s\<lparr>theWorld := ?w1\<rparr>) = (bs, s')"
    by (cases "launchLoop (bodies ?w1) (s\<lparr>theWorld := ?w1\<rparr>)")
  from assms(4) s l have w': "bodies w' = bs"
    by (auto simp: createShapes_def Let_def)
  from launchLoop_sameShape [of "bodies ?w1" "s\<lparr>theWorld := ?w1\<rparr>"] l
  have ss: "list_all2 sameShape (bodies (theWorld s)) bs"
    by (simp add: setPhysicsEnabled_def)
  from addAllShapes_first [OF s] obtain s1
    where c: "addCircle (3 / 10) ?s0 = Some s1" and pl: "placements (theWorld s1) (theWorld s)"
    by blast
  from assms(1-3) have "bodies (theWorld ?s0) = []" "3 / 10 \<le> worldBoundsX (theWorld ?s0)"
    "3 / 10 \<le> worldBoundsY (theWorld ?s0)" by simp_all
  from addCircle_first [OF this c]
  have one: "map (\<lambda>b. (body_id b, colorIndex b)) (bodies (theWorld s1)) =
      [(nextBodyId w, Some (fst (takePresetIndex ?s0)))]" by simp
  then obtain b where b: "bodies (theWorld s1) = [b]" by auto
  from placements_frame [OF pl] b obtain ext where e: "bodies (theWorld s) = b # ext" by auto
  with ss obtain b' ext' where bs: "bs = b' # ext'" and sb: "sameShape b b'"
    by (auto simp: list_all2_Cons1)
  from one b sb have "(body_id b', colorIndex b') = (nextBodyId w, Some (fst (takePresetIndex ?s0)))"
    by (simp add: sameShape_def)
  with w' bs show ?thesis by (simp add: firstIdAndColour_def)
qed

lemma temper_a: "temper (createRng [97] + 1831565813) = 3796146261"
  by code_simp

lemma temper_c: "temper (createRng [99] + 1831565813) = 1154321266"
  by code_simp

lemma first_colour_a:
  "fst (takePresetIndex \<lparr>rngState = createRng [97],
      availablePresetIndices = [0 ..< length COLOR_PRESETS], theWorld = w\<rparr>) = 8"
  by (simp add: takePresetIndex_def rngNext_def mulberry32_def Let_def temper_a COLOR_PRESETS_def)

lemma first_colour_c:
  "fst (takePresetIndex \<lparr>rngState = createRng [99],
      availablePresetIndices = [0 ..< length COLOR_PRESETS], theWorld = w\<rparr>) = 2"
  by (simp add: takePresetIndex_def rngNext_def mulberry32_def Let_def temper_c COLOR_PRESETS_def)


lemma createShapes_registry:
  assumes "registryFrom m w"
  shows "\<exists>w'. createShapes rng w = Some w' \<and> registryFrom m w'"
proof -
  from createShapes_returns obtain w' where w': "createShapes rng w = Some w'" by blast
  from createShapes_Some [OF w'] obtain w1
    where pl: "placements w w1" and ss: "list_all2 sameShape (bodies w1) (bodies w')"
      and n: "nextBodyId w' = nextBodyId w1" and m: "bodyById w' = bodyById w1"
    by blast
  from placements_registry [OF pl assms] have r: "registryFrom m w1" .
  from ss have len: "length (bodies w') = length (bodies w1)" by (simp add: list_all2_lengthD)
  from sameShape_ids [OF ss] have ids: "map body_id (bodies w') = map body_id (bodies w1)" by simp
  from r have "registryFrom m w'"
    unfolding registryFrom_def ids len n m .
  with w' show ?thesis by blast
qed

lemma registryFrom_ids:
  assumes "registryFrom m w"
  shows "distinct (map body_id (bodies w))" and "\<forall>b \<in> set (bodies w). m \<le> body_id b"
proof -
  from assms have ids: "map body_id (bodies w) = [m ..< m + length (bodies w)]"
    by (simp add: registryFrom_def)
  show "distinct (map body_id (bodies w))" unfolding ids by simp
  show "\<forall>b \<in> set (bodies w). m \<le> body_id b"
  proof
    fix b assume "b \<in> set (bodies w)"
    then have "body_id b \<in> set (map body_id (bodies w))" by simp
    then show "m \<le> body_id b" unfolding ids by simp
  qed
qed

lemma registryFrom_reset:
  "registryFrom 1 ((setPhysicsEnabled False (w\<lparr>bodies := []\<rparr>))\<lparr>bodyById := Map.empty, nextBodyId := 1\<rparr>)"
  by (simp add: registryFrom_def setPhysicsEnabled_def)

text \<open>
  Claim C10, as the code has it: ids are handed out again after a rebuild.  The first body
  of the start-up composition (seed \<open>"a"\<close>) has the id 1 and the colour index 8; the
  rebuild with the seed \<open>"c"\<close> replaces it with a composition whose first body, of colour
  index 2, has the id 1 again.
\<close>

theorem ids_reused_counterexample:
  "map_option firstIdAndColour firstComposition = Some [(Suc 0, Some 8)] \<and>
   map_option firstIdAndColour rebuiltComposition = Some [(Suc 0, Some 2)]"
proof -
  let ?W0 = "updateWorldBounds 2 (initialWorld\<lparr>sceneRef := True\<rparr>)"
  from createShapes_returns obtain w1 where w1: "createShapes (createRng [97]) ?W0 = Some w1"
    by blast
  have f: "firstComposition = Some w1"
    using w1 by (simp add: firstComposition_def createScene_def)
  have b0: "3 / 10 \<le> worldBoundsX ?W0" "3 / 10 \<le> worldBoundsY ?W0"
    using halfHeight_ge by (simp_all add: updateWorldBounds_fields)
  have "firstIdAndColour w1 = [(nextBodyId ?W0, Some 8)]"
    unfolding first_colour_a [of ?W0, symmetric]
    by (rule createShapes_first [OF _ b0 w1]) (simp add: updateWorldBounds_fields initialWorld_def)
  then have A: "firstIdAndColour w1 = [(Suc 0, Some 8)]"
    by (simp add: updateWorldBounds_fields initialWorld_def)
  from createShapes_Some [OF w1]
  have sc: "sceneRef w1" and bx: "worldBoundsX w1 = worldBoundsX ?W0"
    and bY: "worldBoundsY w1 = worldBoundsY ?W0"
    by (auto simp: updateWorldBounds_fields)
  let ?R = "(setPhysicsEnabled False (w1\<lparr>bodies := []\<rparr>))\<lparr>bodyById := Map.empty, nextBodyId := 1\<rparr>"
  from createShapes_returns obtain w2 where w2: "createShapes (createRng [99]) ?R = Some w2"
    by blast
  have r: "rebuiltComposition = Some w2"
    using w2 sc by (simp add: rebuiltComposition_def f regenerateComposition_def)
  have "worldBoundsX ?R = worldBoundsX ?W0" "worldBoundsY ?R = worldBoundsY ?W0"
    by (simp_all add: setPhysicsEnabled_def bx bY)
  with b0 have b1: "3 / 10 \<le> worldBoundsX ?R" "3 / 10 \<le> worldBoundsY ?R"
    by (simp_all only:)
  have "firstIdAndColour w2 = [(nextBodyId ?R, Some 2)]"
    unfolding first_colour_c [of ?R, symmetric]
    by (rule createShapes_first [OF _ b1 w2]) (simp add: setPhysicsEnabled_def)
  then have B: "firstIdAndColour w2 = [(Suc 0, Some 2)]" by simp
  from A B show ?thesis unfolding f r by simp
qed

text \<open>
  Claim C10, amended.  Within one composition the ids are unique: a rebuild
  (\<open>regenerateComposition\<close> with a scene) returns, and in the world it leaves the ids of the
  bodies are \<open>1, 2, ...\<close> in the order of placement, hence positive and pairwise
  distinct; \<open>nextBodyId\<close> is the next one and \<open>bodyById\<close> finds each body under its id and
  nothing under any other number.  The counter restarts at 1 with every rebuild, so the
  ids of an earlier composition are handed out again.
\<close>

theorem ids_unique_within_composition:
  assumes "sceneRef w"
  shows "\<exists>w'. regenerateComposition seedStr w = Some w' \<and> registryFrom 1 w' \<and>
           distinct (map body_id (bodies w')) \<and> (\<forall>b \<in> set (bodies w'). 1 \<le> body_id b)"
proof -
  from createShapes_registry [OF registryFrom_reset] obtain w'
    where w': "createShapes (createRng seedStr)
        ((setPhysicsEnabled False (w\<lparr>bodies := []\<rparr>))\<lparr>bodyById := Map.empty, nextBodyId := 1\<rparr>) = Some w'"
      and r: "registryFrom 1 w'"
    by blast
  from w' assms have "regenerateComposition seedStr w = Some w'"
    by (simp add: regenerateComposition_def)
  with r registryFrom_ids [OF r] show ?thesis by blast
qed

theorem ids_unique_within_composition_witness:
  "sceneRef (twoCircles\<lparr>sceneRef := True\<rparr>) \<and>
   (\<exists>w'. regenerateComposition [97] (twoCircles\<lparr>sceneRef := True\<rparr>) = Some w' \<and> registryFrom 1 w' \<and>
      distinct (map body_id (bodies w')) \<and> (\<forall>b \<in> set (bodies w'). 1 \<le> body_id b) \<and>
      firstIdAndColour w' = [(Suc 0, Some 8)])"
proof -
  let ?w = "twoCircles\<lparr>sceneRef := True\<rparr>"
  let ?R = "(setPhysicsEnabled False (?w\<lparr>bodies := []\<rparr>))\<lparr>bodyById := Map.empty, nextBodyId := 1\<rparr>"
  have s: "sceneRef ?w" by simp
  from ids_unique_within_composition [OF s, of "[97]"] obtain w'
    where w': "regenerateComposition [97] ?w = Some w'" and r: "registryFrom 1 w'"
      and d: "distinct (map body_id (bodies w'))" and p: "\<forall>b \<in> set (bodies w'). 1 \<le> body_id b"
    by blast
  from w' have c: "createShapes (createRng [97]) ?R = Some w'"
    by (simp add: regenerateComposition_def)
  have "firstIdAndColour w' = [(nextBodyId ?R, Some 8)]"
    unfolding first_colour_a [of ?R, symmetric]
    by (rule createShapes_first [OF _ _ _ c])
       (simp_all add: setPhysicsEnabled_def twoCircles_def exampleWorld_two)
  then have "firstIdAndColour w' = [(Suc 0, Some 8)]" by simp
  with s w' r d p show ?thesis by blast
qed

subsection \<open>Building does not read the colour-transfer switch\<close>

lemma switchWorld_fields [simp]:
  "bodies (switchWorld c w) = bodies w"
  "nextBodyId (switchWorld c w) = nextBodyId w"
  "bodyById (switchWorld c w) = bodyById w"
  "worldBoundsX (switchWorld c w) = worldBoundsX w"
  "worldBoundsY (switchWorld c w) = worldBoundsY w"
  "sceneRef (switchWorld c w) = sceneRef w"
  "physicsEnabled (switchWorld c w) = physicsEnabled w"
  "colorTransferEnabled (switchWorld c w) = c"
  by (simp_all add: switchWorld_def)

lemma switchComposer_fields [simp]:
  "rngState (switchComposer c s) = rngState s"
  "availablePresetIndices (switchComposer c s) = availablePresetIndices s"
  "theWorld (switchComposer c s) = switchWorld c (theWorld s)"
  by (simp_all add: switchComposer_def)

lemma switchComposer_updates [simp]:
  "(switchComposer c s)\<lparr>rngState := h\<rparr> = switchComposer c (s\<lparr>rngState := h\<rparr>)"
  "(switchComposer c s)\<lparr>availablePresetIndices := xs\<rparr> = switchComposer c (s\<lparr>availablePresetIndices := xs\<rparr>)"
  "(switchComposer c s)\<lparr>theWorld := switchWorld c w\<rparr> = switchComposer c (s\<lparr>theWorld := w\<rparr>)"
  by (simp_all add: switchComposer_def)

lemma addBodyEntry_switch:
  "addBodyEntry b (switchWorld c w) = switchWorld c (addBodyEntry b w)"
  by (simp add: addBodyEntry_def registerBody_def switchWorld_def)

lemma generalPlace_switch:
  "generalPlace rot bRadius verts sType cRadius cIndex (switchWorld c w) =
     (case generalPlace rot bRadius verts sType cRadius cIndex w of
        Hangs \<Rightarrow> Hangs | Failed \<Rightarrow> Failed | Placed w' \<Rightarrow> Placed (switchWorld c w'))"
  by (simp add: generalPlace_def Let_def addBodyEntry_switch split: option.split)

lemma placeMesh_switch:
  "placeMesh rot bRadius verts sType cRadius cIndex (switchWorld c w) =
     (case placeMesh rot bRadius verts sType cRadius cIndex w of
        Hangs \<Rightarrow> Hangs | Failed \<Rightarrow> Failed | Placed w' \<Rightarrow> Placed (switchWorld c w'))"
  by (simp add: placeMesh_def addBodyEntry_switch generalPlace_switch split: option.split)

lemma rngNext_switch:
  "rngNext (switchComposer c s) = (fst (rngNext s), switchComposer c (snd (rngNext s)))"
  by (simp add: rngNext_def split: prod.split)


lemma randomColor_switch: "randomColor (switchComposer c s) = switchComposer c (randomColor s)"
  by (simp add: randomColor_def rngNext_switch)

lemma materialFor_switch: "materialFor i (switchComposer c s) = switchComposer c (materialFor i s)"
  by (auto simp: materialFor_def randomColor_switch)

lemma takePresetIndex_switch:
  "takePresetIndex (switchComposer c s) =
     (fst (takePresetIndex s), switchComposer c (snd (takePresetIndex s)))"
  by (simp add: takePresetIndex_def rngNext_switch Let_def split: prod.split)

lemma randomVelocity_switch:
  "randomVelocity k (switchComposer c s) =
     (fst (randomVelocity k s), switchComposer c (snd (randomVelocity k s)))"
  by (simp add: randomVelocity_def rngNext_switch Let_def split: prod.split)

lemma placeWithRotations_switch:
  "placeWithRotations n bRadius verts sType cRadius cIndex (switchComposer c s) =
     map_option (switchComposer c) (placeWithRotations n bRadius verts sType cRadius cIndex s)"
proof (induction n arbitrary: s)
  case 0
  show ?case by simp
next
  case (Suc n)
  obtain r s1 where r: "rngNext s = (r, s1)" by (cases "rngNext s")
  show ?case
    by (cases "placeMesh (r * pi * 2) bRadius verts sType cRadius cIndex (theWorld s1)")
       (simp_all add: rngNext_switch r placeMesh_switch Suc.IH)
qed

lemma addCircle_switch:
  "addCircle radius (switchComposer c s) = map_option (switchComposer c) (addCircle radius s)"
proof -
  obtain i s1 where t: "takePresetIndex s = (i, s1)" by (cases "takePresetIndex s")
  show ?thesis
    by (cases "placeMesh 0 (radius * 1) (circleVerts (radius * 1)) Circle (radius * 1) i
                 (theWorld (materialFor i s1))")
       (simp_all add: addCircle_def Let_def takePresetIndex_switch t materialFor_switch
          placeMesh_switch)
qed

lemma addRect_switch:
  "addRect width height (switchComposer c s) =
     map_option (switchComposer c) (addRect width height s)"
  by (simp add: addRect_def Let_def takePresetIndex_switch materialFor_switch
      placeWithRotations_switch split: prod.split)

lemma addSquare_switch:
  "addSquare sz (switchComposer c s) = map_option (switchComposer c) (addSquare sz s)"
  by (simp add: addSquare_def addRect_switch)

lemma addTriangle_switch:
  "addTriangle sz (switchComposer c s) = map_option (switchComposer c) (addTriangle sz s)"
  by (simp add: addTriangle_def Let_def takePresetIndex_switch materialFor_switch
      placeWithRotations_switch split: prod.split)

lemma bind_switch:
  assumes "m' = map_option (switchComposer c) m"
    and "\<And>s. g (switchComposer c s) = map_option (switchComposer c) (g s)"
  shows "Option.bind m' g = map_option (switchComposer c) (Option.bind m g)"
  using assms by (cases m) simp_all

lemma addAllShapes_switch:
  "addAllShapes (switchComposer c s) = map_option (switchComposer c) (addAllShapes s)"
  unfolding addAllShapes_def
  by (rule bind_switch,
      rule addCircle_switch addSquare_switch addTriangle_switch addRect_switch)+
     (rule addSquare_switch)

lemma launchBody_switch:
  "launchBody b (switchComposer c s) =
     (fst (launchBody b s), switchComposer c (snd (launchBody b s)))"
  by (simp add: launchBody_def Let_def randomVelocity_switch rngNext_switch case_prod_beta)

lemma launchLoop_switch:
  "launchLoop bs (switchComposer c s) =
     (fst (launchLoop bs s), switchComposer c (snd (launchLoop bs s)))"
proof (induction bs arbitrary: s)
  case Nil
  show ?case by simp
next
  case (Cons b bs)
  show ?case
    by (simp add: launchBody_switch Cons.IH case_prod_beta)
qed

lemma createShapes_switch:
  "createShapes rng (switchWorld c w) = map_option (switchWorld c) (createShapes rng w)"
proof -
  let ?s0 = "\<lparr>rngState = rng, availablePresetIndices = [0 ..< length COLOR_PRESETS], theWorld = w\<rparr>"
  have s0: "\<lparr>rngState = rng, availablePresetIndices = [0 ..< length COLOR_PRESETS],
      theWorld = switchWorld c w\<rparr> = switchComposer c ?s0"
    by (simp add: switchComposer_def)
  have p: "setPhysicsEnabled True (switchWorld c v) = switchWorld c (setPhysicsEnabled True v)" for v
    by (simp add: setPhysicsEnabled_def switchWorld_def)
  have b: "(switchWorld c v)\<lparr>bodies := bs\<rparr> = switchWorld c (v\<lparr>bodies := bs\<rparr>)" for v bs
    by (simp add: switchWorld_def)
  show ?thesis
    unfolding createShapes_def s0 addAllShapes_switch
    by (cases "addAllShapes ?s0") (simp_all add: Let_def p b launchLoop_switch case_prod_beta)
qed


lemma reset_switch:
  assumes "worldBoundsX w1 = worldBoundsX w2" and "worldBoundsY w1 = worldBoundsY w2"
    and "sceneRef w1 = sceneRef w2"
  shows "(setPhysicsEnabled False (w1\<lparr>bodies := []\<rparr>))\<lparr>bodyById := Map.empty, nextBodyId := 1\<rparr> =
         switchWorld (colorTransferEnabled w1)
           ((setPhysicsEnabled False (w2\<lparr>bodies := []\<rparr>))\<lparr>bodyById := Map.empty, nextBodyId := 1\<rparr>)"
  using assms by (simp add: setPhysicsEnabled_def switchWorld_def)

text \<open>
  Claim C1, amended.  A rebuild is a function of the seed and of the world bounds: for one
  seed, \<open>regenerateComposition\<close> started from any two states of the program that have a
  scene and the same world bounds returns in both, with the same list of bodies (count,
  order, and every field of every body, so positions, rotations and colour indices), the
  same id counter and the same id map.  Nothing that an earlier composition or the
  simulation left behind is read.  Numbers are reals here.
\<close>

theorem rebuild_deterministic:
  assumes "sceneRef w1" and "sceneRef w2"
    and "worldBoundsX w1 = worldBoundsX w2" and "worldBoundsY w1 = worldBoundsY w2"
  shows "\<exists>w1' w2'. regenerateComposition seedStr w1 = Some w1' \<and>
           regenerateComposition seedStr w2 = Some w2' \<and>
           bodies w1' = bodies w2' \<and> nextBodyId w1' = nextBodyId w2' \<and>
           bodyById w1' = bodyById w2'"
proof -
  let ?R1 = "(setPhysicsEnabled False (w1\<lparr>bodies := []\<rparr>))\<lparr>bodyById := Map.empty, nextBodyId := 1\<rparr>"
  let ?R2 = "(setPhysicsEnabled False (w2\<lparr>bodies := []\<rparr>))\<lparr>bodyById := Map.empty, nextBodyId := 1\<rparr>"
  from createShapes_returns obtain w2'
    where w2': "createShapes (createRng seedStr) ?R2 = Some w2'" by blast
  from assms have R: "?R1 = switchWorld (colorTransferEnabled w1) ?R2"
    by (intro reset_switch) simp_all
  have w1': "createShapes (createRng seedStr) ?R1 = Some (switchWorld (colorTransferEnabled w1) w2')"
    unfolding R createShapes_switch w2' by simp
  from assms(1) w1'
  have r1: "regenerateComposition seedStr w1 = Some (switchWorld (colorTransferEnabled w1) w2')"
    by (simp add: regenerateComposition_def)
  from assms(2) w2' have r2: "regenerateComposition seedStr w2 = Some w2'"
    by (simp add: regenerateComposition_def)
  from r1 r2 show ?thesis by simp
qed

theorem rebuild_deterministic_witness:
  "sceneRef (twoCircles\<lparr>sceneRef := True\<rparr>) \<and>
   sceneRef (apartWorld\<lparr>sceneRef := True, colorTransferEnabled := True\<rparr>) \<and>
   worldBoundsX (twoCircles\<lparr>sceneRef := True\<rparr>) =
     worldBoundsX (apartWorld\<lparr>sceneRef := True, colorTransferEnabled := True\<rparr>) \<and>
   worldBoundsY (twoCircles\<lparr>sceneRef := True\<rparr>) =
     worldBoundsY (apartWorld\<lparr>sceneRef := True, colorTransferEnabled := True\<rparr>) \<and>
   (\<exists>w1' w2'. regenerateComposition [97] (twoCircles\<lparr>sceneRef := True\<rparr>) = Some w1' \<and>
      regenerateComposition [97] (apartWorld\<lparr>sceneRef := True, colorTransferEnabled := True\<rparr>) = Some w2' \<and>
      bodies w1' = bodies w2' \<and> nextBodyId w1' = nextBodyId w2' \<and> bodyById w1' = bodyById w2')"
proof -
  let ?a = "twoCircles\<lparr>sceneRef := True\<rparr>"
  let ?b = "apartWorld\<lparr>sceneRef := True, colorTransferEnabled := True\<rparr>"
  have s: "sceneRef ?a" "sceneRef ?b" by simp_all
  have x: "worldBoundsX ?a = worldBoundsX ?b"
    by (simp add: twoCircles_def apartWorld_def exampleWorld_two)
  have y: "worldBoundsY ?a = worldBoundsY ?b"
    by (simp add: twoCircles_def apartWorld_def exampleWorld_two)
  from rebuild_deterministic [OF s x y, of "[97]"] s x y show ?thesis by (intro conjI)
qed

section \<open>The pause without an impulse\<close>

lemma resolvePair_no_approach:
  assumes "\<not> approachingHit a b" and "resolvePair ct a b = Some (a', b')"
  shows "sameMotion a a' \<and> sameMotion b b'"
proof (cases "polygonPolygonSAT (getWorldVertices a) (getWorldVertices b)")
  case SatNull
  with assms(2) show ?thesis by (simp add: resolvePair_miss sameMotion_def)
next
  case SatUnbounded
  with assms(2) resolvePair_None_iff [of ct a b] show ?thesis by simp
next
  case (SatHit normal0 depth)
  show ?thesis
  proof (cases "effInvMass a + effInvMass b = 0")
    case True
    with SatHit assms(2) show ?thesis by (simp add: resolvePair_massless sameMotion_def)
  next
    case False
    with SatHit assms(1) have "\<not> velAlongNormal a b (orientNormal a b normal0) < 0"
      by (simp add: approachingHit_def)
    with resolvePair_hit [OF SatHit False, of ct] assms(2) show ?thesis
      by (auto simp: sameMotion_def)
  qed
qed

lemma sameMotion_refl: "sameMotion a a"
  by (simp add: sameMotion_def)

lemma sameMotion_trans: "sameMotion a b \<Longrightarrow> sameMotion b c \<Longrightarrow> sameMotion a c"
  by (simp add: sameMotion_def)

lemma sameMotion_update2:
  assumes "sameMotion (bs ! i) a'" and "sameMotion (bs ! j) b'"
  shows "list_all2 sameMotion bs (bs[i := a', j := b'])"
proof -
  have r: "list_all2 sameMotion bs bs"
    by (simp add: list_all2_same sameMotion_refl)
  have "list_all2 sameMotion (bs[i := bs ! i]) (bs[i := a'])"
    by (rule list_all2_update_cong [OF r assms(1)])
  then have s1: "list_all2 sameMotion bs (bs[i := a'])" by simp
  have "list_all2 sameMotion (bs[j := bs ! j]) (bs[i := a', j := b'])"
    by (rule list_all2_update_cong [OF s1 assms(2)])
  then show ?thesis by simp
qed

lemma pairLoop_no_approach:
  assumes "pairLoop ct ps bs = Some bs'" and "noApproach ct ps bs"
  shows "list_all2 sameMotion bs bs'"
  using assms
proof (induction ps arbitrary: bs)
  case Nil
  then show ?case by (simp add: list_all2_same sameMotion_refl)
next
  case (Cons p ps)
  obtain i j where p: "p = (i, j)" by (cases p)
  from Cons.prems(1) p obtain a' b' where
    rp: "resolvePair ct (bs ! i) (bs ! j) = Some (a', b')" and
    rest: "pairLoop ct ps (bs[i := a', j := b']) = Some bs'"
    by (auto split: option.splits)
  from Cons.prems(2) p rp have na: "\<not> approachingHit (bs ! i) (bs ! j)"
    and nr: "noApproach ct ps (bs[i := a', j := b'])"
    by simp_all
  from resolvePair_no_approach [OF na rp]
  have "list_all2 sameMotion bs (bs[i := a', j := b'])"
    by (intro sameMotion_update2) simp_all
  moreover from Cons.IH [OF rest nr] have "list_all2 sameMotion (bs[i := a', j := b']) bs'" .
  ultimately show ?case
    by (rule list_all2_trans [rotated]) (rule sameMotion_trans)
qed

lemma sameMotion_anyMoving:
  "list_all2 sameMotion bs bs' \<Longrightarrow> anyMoving bs' = anyMoving bs"
  by (induction rule: list_all2_induct) (simp_all add: sameMotion_def)

lemma allAtRest_moved:
  assumes "allAtRest bs" and "0 \<le> dt"
  shows "\<not> anyMoving (map (moveBody dt bndX bndY) bs)"
proof -
  have "\<not> isDragged b' \<and> \<not> hypot (fst (velocity b')) (snd (velocity b')) > 2 / 100 \<and>
        \<not> \<bar>angularVelocity b'\<bar> > 4 / 10" if "b' \<in> set (map (moveBody dt bndX bndY) bs)" for b'
  proof -
    from that obtain b where b: "b \<in> set bs" and b': "b' = moveBody dt bndX bndY b"
      by auto
    from assms(1) b have "\<not> isDragged b" "hypot (fst (velocity b)) (snd (velocity b)) < 2 / 100"
      "\<bar>angularVelocity b\<bar> < 4 / 10"
      by (auto simp: allAtRest_def)
    from moveBody_at_rest [OF assms(2) this, of bndX bndY]
    show ?thesis unfolding b' by simp
  qed
  then show ?thesis unfolding anyMoving_iff by blast
qed

text \<open>
  Claim C5, amended.  A running world in which no body is dragged and every body has
  linear speed below 0.02 and angular speed below 0.4; the time step is not negative.  If
  no pair is approaching along its collision normal when the pair loop of the step comes
  to it (pairs that do not touch, that rest against each other or that separate are all
  allowed), then the step, whenever it returns, leaves \<open>physicsEnabled\<close> false; and it
  returns whenever each body has an edge of non-zero length.
\<close>

theorem autopause_without_impulse:
  assumes "physicsEnabled w" and "allAtRest (bodies w)" and "0 \<le> dt"
    and "noApproach (colorTransferEnabled w) (allPairs (length (bodies w)))
           (map (moveBody dt (worldBoundsX w) (worldBoundsY w)) (bodies w))"
  shows "(\<forall>w'. updatePhysics dt w = Some w' \<longrightarrow> \<not> physicsEnabled w') \<and>
         ((\<forall>b \<in> set (bodies w). edgeAxes (localVerts b) \<noteq> []) \<longrightarrow>
            (\<exists>w'. updatePhysics dt w = Some w'))"
proof (intro conjI allI impI)
  fix w'
  assume step: "updatePhysics dt w = Some w'"
  let ?moved = "map (moveBody dt (worldBoundsX w) (worldBoundsY w)) (bodies w)"
  from updatePhysics_running [OF assms(1) step] have
    loop: "pairLoop (colorTransferEnabled w) (allPairs (length (bodies w))) ?moved = Some (bodies w')"
    and pe: "physicsEnabled w' = anyMoving (bodies w')"
    by auto
  from pairLoop_no_approach [OF loop assms(4)]
  have "anyMoving (bodies w') = anyMoving ?moved" by (rule sameMotion_anyMoving)
  with allAtRest_moved [OF assms(2,3)] pe show "\<not> physicsEnabled w'" by simp
next
  assume "\<forall>b \<in> set (bodies w). edgeAxes (localVerts b) \<noteq> []"
  then show "\<exists>w'. updatePhysics dt w = Some w'" by (rule updatePhysics_returns)
qed

lemma approachingHit_same_velocity: "velocity a = velocity b \<Longrightarrow> \<not> approachingHit a b"
  by (simp add: approachingHit_def velAlongNormal_def split: sat_result.splits)

lemma moveBody_still:
  "moveBody (1 / 100) 4 (22 / 10) ((exampleRect 0 0 c)\<lparr>body_id := k, isMagnetAnchored := False\<rparr>) =
     (exampleRect 0 0 c)\<lparr>body_id := k, isMagnetAnchored := False\<rparr>"
  "moveBody (1 / 100) 4 (22 / 10) ((exampleRect (1 / 2) 0 c)\<lparr>body_id := k, isMagnetAnchored := False\<rparr>) =
     (exampleRect (1 / 2) 0 c)\<lparr>body_id := k, isMagnetAnchored := False\<rparr>"
  by (simp_all add: moveBody_def Let_def exampleRect_def bodyLiteral_def)

theorem autopause_without_impulse_witness:
  "physicsEnabled restingWorld \<and> allAtRest (bodies restingWorld) \<and>
   map (moveBody (1 / 100) (worldBoundsX restingWorld) (worldBoundsY restingWorld))
       (bodies restingWorld) = bodies restingWorld \<and>
   polygonPolygonSAT (getWorldVertices (bodies restingWorld ! 0))
     (getWorldVertices (bodies restingWorld ! 1)) = SatHit (- 1, 0) (1 / 10) \<and>
   noApproach (colorTransferEnabled restingWorld) (allPairs (length (bodies restingWorld)))
     (bodies restingWorld) \<and>
   map_option physicsEnabled (updatePhysics (1 / 100) restingWorld) = Some False"
proof -
  let ?a = "(exampleRect 0 0 2)\<lparr>body_id := Suc 0, isMagnetAnchored := False\<rparr>"
  let ?b = "(exampleRect (1 / 2) 0 7)\<lparr>body_id := 2, isMagnetAnchored := False\<rparr>"
  have run: "physicsEnabled restingWorld"
    and bs: "bodies restingWorld = [?a, ?b]"
    and bx: "worldBoundsX restingWorld = 4" and bY: "worldBoundsY restingWorld = 22 / 10"
    by (simp_all add: restingWorld_def exampleWorld_two)
  have rest: "allAtRest (bodies restingWorld)"
    unfolding bs by (simp add: allAtRest_def exampleRect_def bodyLiteral_def)
  have moved: "map (moveBody (1 / 100) (worldBoundsX restingWorld) (worldBoundsY restingWorld))
       (bodies restingWorld) = bodies restingWorld"
    unfolding bs bx bY by (simp only: list.map moveBody_still)
  have gv: "getWorldVertices ?a = getWorldVertices (exampleRect 0 0 2)"
    "getWorldVertices ?b = getWorldVertices (exampleRect (1 / 2) 0 7)"
    by (simp_all add: getWorldVertices_def)
  have sat: "polygonPolygonSAT (getWorldVertices (bodies restingWorld ! 0))
     (getWorldVertices (bodies restingWorld ! 1)) = SatHit (- 1, 0) (1 / 10)"
    unfolding bs
    by (simp add: gv getWorldVertices_exampleRect sat_eval
        del: checkAxes_loop.simps(2) projectOntoAxis_loop.simps(2))
  have "velocity ?a = velocity ?b" by (simp add: exampleRect_def bodyLiteral_def)
  then have "\<not> approachingHit ?a ?b" by (rule approachingHit_same_velocity)
  then have na: "noApproach (colorTransferEnabled restingWorld) (allPairs (length (bodies restingWorld)))
     (bodies restingWorld)"
    unfolding bs by (simp add: allPairs_2 split: option.split)
  have na': "noApproach (colorTransferEnabled restingWorld) (allPairs (length (bodies restingWorld)))
     (map (moveBody (1 / 100) (worldBoundsX restingWorld) (worldBoundsY restingWorld))
       (bodies restingWorld))"
    unfolding moved by (rule na)
  have dt: "(0::real) \<le> 1 / 100" by simp
  have wf: "\<forall>b \<in> set (bodies restingWorld). edgeAxes (localVerts b) \<noteq> []"
    unfolding bs using edgeAxes_exampleRectVerts by (simp add: exampleRect_def bodyLiteral_def)
  from autopause_without_impulse [OF run rest dt na'] wf
  have "map_option physicsEnabled (updatePhysics (1 / 100) restingWorld) = Some False"
    by auto
  with run rest moved sat na show ?thesis by (intro conjI)
qed

section \<open>The same seed in another window\<close>

lemma hypot_ge_abs: "\<bar>a\<bar> \<le> hypot a b" "\<bar>b\<bar> \<le> hypot a b"
proof -
  have "sqrt (a * a) \<le> sqrt (a * a + b * b)" by (rule real_sqrt_le_mono) simp
  then show "\<bar>a\<bar> \<le> hypot a b" by (simp add: hypot_def)
  have "sqrt (b * b) \<le> sqrt (a * a + b * b)" by (rule real_sqrt_le_mono) simp
  then show "\<bar>b\<bar> \<le> hypot a b" by (simp add: hypot_def)
qed

lemma boundingRadiusLoop_first:
  "hypot (fst v) (snd v) \<le> boundingRadiusLoop (v # vs) 0"
proof -
  have "hypot (fst v) (snd v) \<le> (if hypot (fst v) (snd v) > 0 then hypot (fst v) (snd v) else 0)"
    by simp
  also have "\<dots> \<le> boundingRadiusLoop vs (if hypot (fst v) (snd v) > 0 then hypot (fst v) (snd v) else 0)"
    by (rule boundingRadiusLoop_ge)
  finally show ?thesis by simp
qed

lemma placeMesh_too_narrow:
  "bodies w = [] \<Longrightarrow> worldBoundsX w < bRadius \<Longrightarrow>
   placeMesh rot bRadius verts sType cRadius cIndex w = Failed"
  by (simp add: placeMesh_def)

lemma placeWithRotations_too_narrow:
  assumes "bodies w = []" and "worldBoundsX w < bRadius"
  shows "theWorld s = w \<Longrightarrow>
         \<exists>s'. placeWithRotations n bRadius verts sType cRadius cIndex s = Some s' \<and> theWorld s' = w"
proof (induction n arbitrary: s)
  case 0
  then show ?case by simp
next
  case (Suc n)
  obtain r s1 where r: "rngNext s = (r, s1)" by (cases "rngNext s")
  then have w1: "theWorld s1 = w" using rngNext_world [of s] Suc.prems by simp
  from placeMesh_too_narrow [OF assms]
  have "placeMesh (r * pi * 2) bRadius verts sType cRadius cIndex (theWorld s1) = Failed"
    unfolding w1 .
  with Suc.IH [OF w1] r show ?case by simp
qed

lemma addCircle_too_narrow:
  assumes "bodies w = []" and "worldBoundsX w < 15 / 100" and "15 / 100 \<le> radius"
    and "theWorld s = w"
  shows "\<exists>s'. addCircle radius s = Some s' \<and> theWorld s' = w"
proof -
  obtain i s1 where t: "takePresetIndex s = (i, s1)" by (cases "takePresetIndex s")
  then have w1: "theWorld (materialFor i s1) = w"
    using takePresetIndex_world [of s] assms(4) by simp
  from assms(2,3) have "worldBoundsX w < radius * 1" by simp
  from placeMesh_too_narrow [OF assms(1) this]
  have "placeMesh 0 (radius * 1) (circleVerts (radius * 1)) Circle (radius * 1) i
          (theWorld (materialFor i s1)) = Failed"
    unfolding w1 .
  with t w1 show ?thesis by (simp add: addCircle_def Let_def)
qed

lemma addRect_too_narrow:
  assumes "bodies w = []" and "worldBoundsX w < 15 / 100" and "3 / 10 \<le> width"
    and "theWorld s = w"
  shows "\<exists>s'. addRect width height s = Some s' \<and> theWorld s' = w"
proof -
  obtain i s1 where t: "takePresetIndex s = (i, s1)" by (cases "takePresetIndex s")
  then have w1: "theWorld (materialFor i s1) = w"
    using takePresetIndex_world [of s] assms(4) by simp
  let ?hw = "width * 1 * (5 / 10)" and ?hh = "height * 1 * (5 / 10)"
  have "\<bar>- ?hw\<bar> \<le> hypot (- ?hw) (- ?hh)" by (rule hypot_ge_abs)
  also have "\<dots> \<le> boundingRadiusLoop (rectVerts ?hw ?hh) 0"
    using boundingRadiusLoop_first [of "(- ?hw, - ?hh)"] by (simp add: rectVerts_def)
  finally have "worldBoundsX w < boundingRadiusLoop (rectVerts ?hw ?hh) 0"
    using assms(2,3) by simp
  from placeWithRotations_too_narrow [OF assms(1) this w1] t
  show ?thesis by (simp add: addRect_def Let_def)
qed

lemma addSquare_too_narrow:
  assumes "bodies w = []" and "worldBoundsX w < 15 / 100" and "3 / 10 \<le> sz"
    and "theWorld s = w"
  shows "\<exists>s'. addSquare sz s = Some s' \<and> theWorld s' = w"
  unfolding addSquare_def using assms by (rule addRect_too_narrow)

lemma addTriangle_too_narrow:
  assumes "bodies w = []" and "worldBoundsX w < 15 / 100" and "15 / 100 \<le> sz"
    and "theWorld s = w"
  shows "\<exists>s'. addTriangle sz s = Some s' \<and> theWorld s' = w"
proof -
  obtain i s1 where t: "takePresetIndex s = (i, s1)" by (cases "takePresetIndex s")
  then have w1: "theWorld (materialFor i s1) = w"
    using takePresetIndex_world [of s] assms(4) by simp
  have "\<bar>sz * 1\<bar> \<le> hypot 0 (sz * 1)" by (rule hypot_ge_abs)
  also have "\<dots> \<le> boundingRadiusLoop (triVerts (sz * 1)) 0"
    using boundingRadiusLoop_first [of "(0, sz * 1)"] by (simp add: triVerts_def)
  finally have "worldBoundsX w < boundingRadiusLoop (triVerts (sz * 1)) 0"
    using assms(2,3) by simp
  from placeWithRotations_too_narrow [OF assms(1) this w1] t
  show ?thesis by (simp add: addTriangle_def Let_def)
qed

lemma bind_too_narrow:
  assumes "\<exists>s1. m = Some s1 \<and> theWorld s1 = w"
    and "\<And>s1. theWorld s1 = w \<Longrightarrow> \<exists>s'. g s1 = Some s' \<and> theWorld s' = w"
  shows "\<exists>s'. Option.bind m g = Some s' \<and> theWorld s' = w"
  using assms by auto

lemma addAllShapes_too_narrow:
  assumes "bodies w = []" and "worldBoundsX w < 15 / 100" and "theWorld s = w"
  shows "\<exists>s'. addAllShapes s = Some s' \<and> theWorld s' = w"
  unfolding addAllShapes_def
  by (rule bind_too_narrow,
      (rule addCircle_too_narrow [OF assms(1,2)] addSquare_too_narrow [OF assms(1,2)]
            addTriangle_too_narrow [OF assms(1,2)] addRect_too_narrow [OF assms(1,2)],
       simp, (rule assms(3) | assumption)))+
     (rule addSquare_too_narrow [OF assms(1,2)], simp, assumption)

lemma createShapes_too_narrow:
  assumes "bodies w = []" and "worldBoundsX w < 15 / 100"
  shows "\<exists>w'. createShapes rng w = Some w' \<and> bodies w' = []"
proof -
  let ?s0 = "\<lparr>rngState = rng, availablePresetIndices = [0 ..< length COLOR_PRESETS], theWorld = w\<rparr>"
  have "theWorld ?s0 = w" by simp
  from addAllShapes_too_narrow [OF assms this] obtain s
    where s: "addAllShapes ?s0 = Some s" and w: "theWorld s = w" by blast
  from s w assms(1) show ?thesis
    by (simp add: createShapes_def Let_def setPhysicsEnabled_def)
qed

lemma halfHeight_le: "tan (35 * pi / 180 / 2) * 7 \<le> 7"
proof -
  have "tan (35 * pi / 180 / 2) \<le> tan (pi / 4)"
    by (rule tan_mono_le) simp_all
  then show ?thesis by (simp add: tan_45)
qed


text \<open>
  Claim C1 does not hold as stated: the placement reads the world bounds, and a resize of
  the window changes them.  The start-up composition for the seed \<open>"a"\<close> in a window twice
  as wide as high begins with a body of id 1 and colour index 8; after the window has been
  resized to 10 by 1000, the rebuild with the same seed places no body at all, because
  every shape is wider than the world.
\<close>

theorem same_seed_other_window_counterexample:
  "map_option firstIdAndColour firstComposition = Some [(Suc 0, Some 8)] \<and>
   map_option bodies narrowRebuild = Some []"
proof -
  let ?W0 = "updateWorldBounds 2 (initialWorld\<lparr>sceneRef := True\<rparr>)"
  from createShapes_returns obtain w1 where w1: "createShapes (createRng [97]) ?W0 = Some w1"
    by blast
  have f: "firstComposition = Some w1"
    using w1 by (simp add: firstComposition_def createScene_def)
  have b0: "3 / 10 \<le> worldBoundsX ?W0" "3 / 10 \<le> worldBoundsY ?W0"
    using halfHeight_ge by (simp_all add: updateWorldBounds_fields)
  have "firstIdAndColour w1 = [(nextBodyId ?W0, Some 8)]"
    unfolding first_colour_a [of ?W0, symmetric]
    by (rule createShapes_first [OF _ b0 w1]) (simp add: updateWorldBounds_fields initialWorld_def)
  then have A: "firstIdAndColour w1 = [(Suc 0, Some 8)]"
    by (simp add: updateWorldBounds_fields initialWorld_def)
  from createShapes_Some [OF w1] have sc: "sceneRef w1"
    by (auto simp: updateWorldBounds_fields)
  let ?w2 = "onResize 10 1000 w1"
  let ?R = "(setPhysicsEnabled False (?w2\<lparr>bodies := []\<rparr>))\<lparr>bodyById := Map.empty, nextBodyId := 1\<rparr>"
  have sc2: "sceneRef ?w2" using sc by (simp add: onResize_def updateWorldBounds_fields)
  have e: "bodies ?R = []" by (simp add: setPhysicsEnabled_def)
  have "worldBoundsX ?R = tan (35 * pi / 180 / 2) * 7 * (10 / 1000)"
    by (simp add: setPhysicsEnabled_def onResize_def updateWorldBounds_fields)
  with halfHeight_le have n: "worldBoundsX ?R < 15 / 100" by simp
  from createShapes_too_narrow [OF e n] obtain w3
    where w3: "createShapes (createRng [97]) ?R = Some w3" and b3: "bodies w3 = []"
    by blast
  have r: "narrowRebuild = Some w3"
    using w3 sc2 by (simp add: narrowRebuild_def f regenerateComposition_def)
  from A b3 show ?thesis unfolding f r by simp
qed

end
